theory Spec2Isabelle
  imports Complex_Main "HOL-Library.Word"
begin

section \<open>Python numbers and strings\<close>

text \<open>
  Python integers are unbounded: they are modelled as \<open>int\<close>.  The source multiplies an
  integer by a decimal literal and truncates with \<open>int(...)\<close>, as in \<open>int(img.height * 0.15)\<close>.
  The literal is modelled by the rational it denotes and \<open>int\<close> by truncation towards zero.
  For the literals of this program (0.5, 0.15, 0.02, 0.1, 0.3, 0.18, 0.2, 0.8, 0.9) and every
  image dimension below \<open>2 ^ 53\<close> the IEEE double product truncates to the same integer: the
  relative error of the literal is below \<open>2 ^ - 54\<close>, so a product that is a whole number is
  rounded to exactly that number, and any other product is at least 1/100 away from a whole
  number.
\<close>

definition py_int :: "rat \<Rightarrow> int" where
  "py_int q = (if 0 \<le> q then \<lfloor>q\<rfloor> else \<lceil>q\<rceil>)"

text \<open>\<open>a in b\<close> on strings: \<open>needle\<close> occurs in \<open>hay\<close> as a contiguous substring.\<close>

fun startswith :: "string \<Rightarrow> string \<Rightarrow> bool" where
  "startswith hay [] = True"
| "startswith [] (n # ns) = False"
| "startswith (h # hs) (n # ns) = (h = n \<and> startswith hs ns)"

fun str_contains :: "string \<Rightarrow> string \<Rightarrow> bool" where
  "str_contains [] needle = (needle = [])"
| "str_contains (h # hs) needle = (startswith (h # hs) needle \<or> str_contains hs needle)"

section \<open>The QR payload\<close>

text \<open>
  \<^verbatim>\<open>
  is_google_maps = any(domain in qr_url for domain in
                       ['google.com/maps', 'maps.google.com', 'maps.app.goo.gl'])
  if is_google_maps and '?' in qr_url:
      qr_url = qr_url.split('?')[0]
  \<close>
\<close>

definition is_google_maps :: "string \<Rightarrow> bool" where
  "is_google_maps qr_url =
     list_ex (\<lambda>domain. str_contains qr_url domain)
       [''google.com/maps'', ''maps.google.com'', ''maps.app.goo.gl'']"

definition clean_qr_url :: "string \<Rightarrow> string" where
  "clean_qr_url qr_url =
     (if is_google_maps qr_url \<and> CHR ''?'' \<in> set qr_url
      then takeWhile (\<lambda>c. c \<noteq> CHR ''?'') qr_url
      else qr_url)"

section \<open>Pixels and rasters\<close>

text \<open>
  An RGBA pixel is four unsigned bytes.  A raster has a size and a pixel at every
  coordinate inside it; what the function returns outside the size is never read.
\<close>

type_synonym rgba = "8 word \<times> 8 word \<times> 8 word \<times> 8 word"

definition alpha_of :: "rgba \<Rightarrow> 8 word" where
  "alpha_of p = (case p of (r, g, b, a) \<Rightarrow> a)"

definition set_alpha :: "rgba \<Rightarrow> 8 word \<Rightarrow> rgba" where
  "set_alpha p a' = (case p of (r, g, b, a) \<Rightarrow> (r, g, b, a'))"

record image =
  width :: int
  height :: int
  getpixel :: "int \<Rightarrow> int \<Rightarrow> rgba"

subsection \<open>Pasting through a mask\<close>

text \<open>
  \<open>Image.paste(im, (x, y), mask)\<close> of the imaging library, for RGBA rasters: the box is the
  size of \<open>im\<close> at the offset, clipped to the destination; inside it each of the four bytes
  of a destination pixel becomes \<open>BLEND(mask_alpha, out, in)\<close>, where
  \<open>BLEND(m, a, b) = DIV255(a * (255 - m) + b * m)\<close> and
  \<open>DIV255(v) = (((v + 128) >> 8) + (v + 128)) >> 8\<close>.
\<close>

definition div255 :: "nat \<Rightarrow> nat" where
  "div255 a = (let tmp = a + 128 in (tmp div 256 + tmp) div 256)"

definition blend :: "8 word \<Rightarrow> 8 word \<Rightarrow> 8 word \<Rightarrow> 8 word" where
  "blend m in1 in2 = of_nat (div255 (unat in1 * (255 - unat m) + unat in2 * unat m))"

definition blend_pixel :: "8 word \<Rightarrow> rgba \<Rightarrow> rgba \<Rightarrow> rgba" where
  "blend_pixel m out inp =
     (case out of (r1, g1, b1, a1) \<Rightarrow> case inp of (r2, g2, b2, a2) \<Rightarrow>
        (blend m r1 r2, blend m g1 g2, blend m b1 b2, blend m a1 a2))"

definition in_box :: "image \<Rightarrow> int \<times> int \<Rightarrow> int \<Rightarrow> int \<Rightarrow> bool" where
  "in_box src box x y =
     (fst box \<le> x \<and> x < fst box + width src \<and> snd box \<le> y \<and> y < snd box + height src)"

definition paste :: "image \<Rightarrow> image \<Rightarrow> int \<times> int \<Rightarrow> image \<Rightarrow> image" where
  "paste dst src box msk =
     dst\<lparr>getpixel := (\<lambda>x y.
        if 0 \<le> x \<and> x < width dst \<and> 0 \<le> y \<and> y < height dst \<and> in_box src box x y
        then blend_pixel (alpha_of (getpixel msk (x - fst box) (y - snd box)))
               (getpixel dst x y) (getpixel src (x - fst box) (y - snd box))
        else getpixel dst x y)\<rparr>"

definition white :: rgba where
  "white = (255, 255, 255, 255)"

definition new_image :: "int \<times> int \<Rightarrow> rgba \<Rightarrow> image" where
  "new_image sz color = \<lparr>width = fst sz, height = snd sz, getpixel = (\<lambda>x y. color)\<rparr>"

subsection \<open>Thumbnails\<close>

datatype py_exception = Exception string

text \<open>
  \<open>Image.thumbnail((x, y), LANCZOS)\<close> of the imaging library shrinks a raster in place.
  Its size computation:
  \<^verbatim>\<open>
  def round_aspect(number, key):
      return max(min(math.floor(number), math.ceil(number), key=key), 1)
  if x >= self.width and y >= self.height:
      return
  aspect = self.width / self.height
  if x / y >= aspect:
      x = round_aspect(y * aspect, key=lambda n: abs(aspect - n / y))
  else:
      y = round_aspect(x / aspect, key=lambda n: 0 if n == 0 else abs(aspect - x / n))
  \<close>
  and then, when the size differs, it resizes to \<open>(x, y)\<close>, which raises when a side is 0.

  The library computes \<open>aspect\<close>, \<open>number\<close> and the two keys in double precision.  Here the
  quotients are exact rationals, and the doubles order them as the rationals do wherever the
  rationals differ: two different keys of an image with sides below \<open>2 ^ 24\<close> are further
  apart than the rounding error of a double.  When the two keys are equal as rationals
  (\<open>number\<close> is half way between two integers), the rounding errors of the doubles decide
  whether the key of the ceiling comes out strictly smaller, and \<open>min\<close> returns the floor unless
  it does: in the box \<open>(300, 360)\<close> a 5 by 400 raster, with \<open>number = 4.5\<close>, gets width 5, and a
  69 by 368 raster, with \<open>number = 67.5\<close>, gets width 67.  That
  decision is not a function of the exact quotients; it is the parameter \<open>ceiling_wins\<close> of
  the size computation, supplied by the imaging library together with its resampling filter,
  and everything proved below holds for both of its values.  The pixels of the resized raster
  come from the resampling filter, a parameter as well.
\<close>

definition round_aspect :: "bool \<Rightarrow> rat \<Rightarrow> (int \<Rightarrow> rat) \<Rightarrow> int" where
  "round_aspect ceiling_wins number key =
     max (if key \<lceil>number\<rceil> < key \<lfloor>number\<rfloor> then \<lceil>number\<rceil>
          else if key \<lfloor>number\<rfloor> < key \<lceil>number\<rceil> then \<lfloor>number\<rfloor>
          else if ceiling_wins then \<lceil>number\<rceil> else \<lfloor>number\<rfloor>) 1"

definition thumbnail_size ::
  "bool \<Rightarrow> int \<times> int \<Rightarrow> int \<times> int \<Rightarrow> py_exception + (int \<times> int) option" where
  "thumbnail_size ceiling_wins self_size box =
     (case self_size of (w, h) \<Rightarrow> case box of (x, y) \<Rightarrow>
        if x \<ge> w \<and> y \<ge> h then Inr None
        else if h = 0 \<or> y = 0 then Inl (Exception ''division by zero'')
        else
          let aspect = of_int w / of_int h :: rat in
          if of_int x / of_int y \<ge> aspect
          then Inr (Some (round_aspect ceiling_wins (of_int y * aspect)
                            (\<lambda>n. \<bar>aspect - of_int n / of_int y\<bar>), y))
          else Inr (Some (x, round_aspect ceiling_wins (of_int x / aspect)
                              (\<lambda>n. if n = 0 then 0 else \<bar>aspect - of_int x / of_int n\<bar>))))"

text \<open>
  What the imaging library contributes to a resize: the pixels of the resized raster, given
  the raster and the new size, and the outcome of the tie between the two double keys, given
  the size of the raster and the box.
\<close>

record resampler =
  resample :: "image \<Rightarrow> int \<times> int \<Rightarrow> int \<Rightarrow> int \<Rightarrow> rgba"
  ceiling_on_tie :: "int \<times> int \<Rightarrow> int \<times> int \<Rightarrow> bool"

definition thumbnail :: "resampler \<Rightarrow> image \<Rightarrow> int \<times> int \<Rightarrow> py_exception + image" where
  "thumbnail lanczos im box =
     (case thumbnail_size (ceiling_on_tie lanczos (width im, height im) box) (width im, height im) box of
        Inl e \<Rightarrow> Inl e
      | Inr None \<Rightarrow> Inr im
      | Inr (Some final_size) \<Rightarrow>
          if (width im, height im) = final_size then Inr im
          else if fst final_size < 1 \<or> snd final_size < 1
          then Inl (Exception ''height and width must be > 0'')
          else Inr \<lparr>width = fst final_size, height = snd final_size,
                    getpixel = resample lanczos im final_size\<rparr>)"

subsection \<open>The alpha band\<close>

type_synonym band = "int \<Rightarrow> int \<Rightarrow> 8 word"

definition split_alpha :: "image \<Rightarrow> band" where
  "split_alpha im = (\<lambda>x y. alpha_of (getpixel im x y))"

definition point :: "band \<Rightarrow> (8 word \<Rightarrow> 8 word) \<Rightarrow> band" where
  "point bnd f = (\<lambda>x y. f (bnd x y))"

definition putalpha :: "image \<Rightarrow> band \<Rightarrow> image" where
  "putalpha im bnd = im\<lparr>getpixel := (\<lambda>x y. set_alpha (getpixel im x y) (bnd x y))\<rparr>"

subsection \<open>The opacity adjustment\<close>

text \<open>
  \<^verbatim>\<open>
  alpha = logo_copy.split()[3]
  alpha = alpha.point(lambda p: int(p * 0.5))
  logo_copy.putalpha(alpha)
  \<close>
  \<open>point\<close> tabulates the function on 0..255 and maps every byte of the band through the table.
\<close>

definition half_opacity :: "8 word \<Rightarrow> 8 word" where
  "half_opacity p = word_of_int (py_int (of_int (uint p) * (1 / 2)))"

definition apply_half_opacity :: "image \<Rightarrow> image" where
  "apply_half_opacity im = putalpha im (point (split_alpha im) half_opacity)"

section \<open>Image objects\<close>

text \<open>
  The imaging library's rasters are mutable objects: \<open>paste\<close>, \<open>thumbnail\<close> and \<open>putalpha\<close>
  change the object they are called on, \<open>Image.new\<close> and \<open>copy\<close> make a new one.  The store
  maps each reference to the raster it holds now; \<open>top\<close> is the next unused reference.
\<close>

type_synonym ref = nat

record store =
  obj :: "ref \<Rightarrow> image"
  top :: ref

definition alloc :: "store \<Rightarrow> image \<Rightarrow> ref \<times> store" where
  "alloc s im = (top s, s\<lparr>obj := (obj s)(top s := im), top := Suc (top s)\<rparr>)"

definition Image_new :: "store \<Rightarrow> int \<times> int \<Rightarrow> rgba \<Rightarrow> ref \<times> store" where
  "Image_new s sz color = alloc s (new_image sz color)"

definition Image_copy :: "store \<Rightarrow> ref \<Rightarrow> ref \<times> store" where
  "Image_copy s r = alloc s (obj s r)"

definition Image_paste :: "store \<Rightarrow> ref \<Rightarrow> ref \<Rightarrow> int \<times> int \<Rightarrow> ref \<Rightarrow> store" where
  "Image_paste s dst src box msk =
     s\<lparr>obj := (obj s)(dst := paste (obj s dst) (obj s src) box (obj s msk))\<rparr>"

definition Image_thumbnail :: "resampler \<Rightarrow> store \<Rightarrow> ref \<Rightarrow> int \<times> int \<Rightarrow> py_exception + store" where
  "Image_thumbnail lanczos s r box =
     (case thumbnail lanczos (obj s r) box of
        Inl e \<Rightarrow> Inl e
      | Inr im \<Rightarrow> Inr (s\<lparr>obj := (obj s)(r := im)\<rparr>))"

definition Image_putalpha :: "store \<Rightarrow> ref \<Rightarrow> band \<Rightarrow> store" where
  "Image_putalpha s r bnd = s\<lparr>obj := (obj s)(r := putalpha (obj s r) bnd)\<rparr>"

section \<open>The canvas composer\<close>

subsection \<open>Footer allocation\<close>

text \<open>
  \<^verbatim>\<open>
  clean_img = Image.new('RGBA', img.size, (255, 255, 255, 255))
  clean_img.paste(img, (0, 0), img)
  footer_height = max(int(img.height * 0.15), 120)
  new_size = (img.width, img.height + footer_height)
  clean_img = Image.new('RGBA', new_size, (255, 255, 255, 255))
  clean_img.paste(img, (0, 0), img)
  \<close>
\<close>

definition footer_height_of :: "int \<Rightarrow> int" where
  "footer_height_of img_height = max (py_int (of_int img_height * (15 / 100))) 120"

definition side_padding_of :: "int \<Rightarrow> int" where
  "side_padding_of img_width = py_int (of_int img_width * (2 / 100))"

definition make_canvas :: "store \<Rightarrow> ref \<Rightarrow> ref \<times> int \<times> store" where
  "make_canvas s img =
     (let (first_img, s1) = Image_new s (width (obj s img), height (obj s img)) white;
          s2 = Image_paste s1 first_img img (0, 0) img;
          footer_height = footer_height_of (height (obj s2 img));
          new_size = (width (obj s2 img), height (obj s2 img) + footer_height);
          (clean_img, s3) = Image_new s2 new_size white
      in (clean_img, footer_height, Image_paste s3 clean_img img (0, 0) img))"

subsection \<open>Overlays\<close>

text \<open>
  The statements of one overlay \<open>try\<close> block after the overlay object is at hand: the
  thumbnail, the opacity adjustment and the paste.  An exception leaves the canvas as it was.
  \<^verbatim>\<open>
  logo_copy.thumbnail((int(img.width * 0.3), target_element_height), Image.LANCZOS)
  alpha = logo_copy.split()[3]
  alpha = alpha.point(lambda p: int(p * 0.5))
  logo_copy.putalpha(alpha)
  clean_img.paste(logo_copy, (side_padding, side_padding), logo_copy)
  \<close>
\<close>

definition target_element_height :: int where
  "target_element_height = 360"

definition logo_box :: "int \<Rightarrow> int \<times> int" where
  "logo_box img_width = (py_int (of_int img_width * (3 / 10)), target_element_height)"

definition qr_box :: "int \<times> int" where
  "qr_box = (target_element_height, target_element_height)"

definition place_logo :: "resampler \<Rightarrow> store \<Rightarrow> ref \<Rightarrow> ref \<Rightarrow> int \<Rightarrow> ref \<Rightarrow> store" where
  "place_logo lanczos s img clean_img side_padding logo =
     (case Image_thumbnail lanczos s logo (logo_box (width (obj s img))) of
        Inl e \<Rightarrow> s
      | Inr s1 \<Rightarrow>
          let alpha = point (split_alpha (obj s1 logo)) half_opacity;
              s2 = Image_putalpha s1 logo alpha
          in Image_paste s2 clean_img logo (side_padding, side_padding) logo)"

text \<open>
  \<^verbatim>\<open>
  qr_copy.thumbnail((target_element_height, target_element_height), Image.LANCZOS)
  alpha = qr_copy.split()[3]
  alpha = alpha.point(lambda p: int(p * 0.5))
  qr_copy.putalpha(alpha)
  qr_x = img.width - qr_copy.width - side_padding
  clean_img.paste(qr_copy, (qr_x, side_padding), qr_copy)
  \<close>
\<close>

definition place_qr :: "resampler \<Rightarrow> store \<Rightarrow> ref \<Rightarrow> ref \<Rightarrow> int \<Rightarrow> ref \<Rightarrow> store" where
  "place_qr lanczos s img clean_img side_padding qr =
     (case Image_thumbnail lanczos s qr qr_box of
        Inl e \<Rightarrow> s
      | Inr s1 \<Rightarrow>
          let alpha = point (split_alpha (obj s1 qr)) half_opacity;
              s2 = Image_putalpha s1 qr alpha;
              qr_x = width (obj s2 img) - width (obj s2 qr) - side_padding
          in Image_paste s2 clean_img qr (qr_x, side_padding) qr)"

text \<open>
  In \<open>process_photos\<close> the logo and the QR raster are decoded once for the batch and every
  photo works on a copy: \<open>logo_copy = logo_img.copy()\<close>, \<open>qr_copy = qr_img.copy()\<close>.
\<close>

definition overlay_logo_copy ::
  "resampler \<Rightarrow> store \<Rightarrow> ref \<Rightarrow> ref \<Rightarrow> int \<Rightarrow> ref option \<Rightarrow> store" where
  "overlay_logo_copy lanczos s img clean_img side_padding logo_img =
     (case logo_img of
        None \<Rightarrow> s
      | Some l \<Rightarrow>
          let (logo_copy, s1) = Image_copy s l
          in place_logo lanczos s1 img clean_img side_padding logo_copy)"

definition overlay_qr_copy ::
  "resampler \<Rightarrow> store \<Rightarrow> ref \<Rightarrow> ref \<Rightarrow> int \<Rightarrow> ref option \<Rightarrow> store" where
  "overlay_qr_copy lanczos s img clean_img side_padding qr_img =
     (case qr_img of
        None \<Rightarrow> s
      | Some q \<Rightarrow>
          let (qr_copy, s1) = Image_copy s q
          in place_qr lanczos s1 img clean_img side_padding qr_copy)"

subsection \<open>The caption\<close>

text \<open>
  Fonts, text measurement and glyph rendering belong to the imaging library; they are
  parameters.  \<open>draw_text\<close> gives the pixels of the raster after one \<open>draw.text\<close> call, or
  the exception the call raised.
\<close>

record 'f typesetter =
  load_font :: "int \<Rightarrow> 'f"
  textbbox :: "string \<Rightarrow> 'f \<Rightarrow> int \<times> int \<times> int \<times> int"
  draw_text :: "image \<Rightarrow> int \<times> int \<Rightarrow> string \<Rightarrow> 'f \<Rightarrow> py_exception + (int \<Rightarrow> int \<Rightarrow> rgba)"

text \<open>
  The two handlers differ in the caption constants only: \<open>process_photos\<close> takes
  \<open>max(int(footer_height * 0.18), 24)\<close> as base size, 0.9 for the second line and 0.3 for the
  spacing; \<open>upload\<close> takes \<open>max(int(footer_height * 0.2), 16)\<close>, 0.8 and 0.2.
\<close>

record caption_preset =
  base_fraction :: rat
  base_floor :: int
  sub_fraction :: rat
  spacing_fraction :: rat

definition process_preset :: caption_preset where
  "process_preset =
     \<lparr>base_fraction = 18 / 100, base_floor = 24, sub_fraction = 9 / 10, spacing_fraction = 3 / 10\<rparr>"

definition upload_preset :: caption_preset where
  "upload_preset =
     \<lparr>base_fraction = 2 / 10, base_floor = 16, sub_fraction = 8 / 10, spacing_fraction = 2 / 10\<rparr>"

type_synonym 'f line_data = "string \<times> 'f \<times> int \<times> int"

fun measure_lines :: "'f typesetter \<Rightarrow> 'f \<Rightarrow> 'f \<Rightarrow> (nat \<times> string) list \<Rightarrow> 'f line_data list" where
  "measure_lines T font_main font_sub [] = []"
| "measure_lines T font_main font_sub ((i, line) # rest) =
     (let font = (if i = 0 then font_main else font_sub) in
      case textbbox T line font of (x0, y0, x1, y1) \<Rightarrow>
        (line, font, x1 - x0, y1 - y0) # measure_lines T font_main font_sub rest)"

fun total_text_height :: "int \<Rightarrow> nat \<Rightarrow> (nat \<times> 'f line_data) list \<Rightarrow> int" where
  "total_text_height line_spacing n [] = 0"
| "total_text_height line_spacing n ((i, (line, font, w, h)) # rest) =
     h + (if int i < int n - 1 then line_spacing else 0) + total_text_height line_spacing n rest"

fun draw_lines ::
  "'f typesetter \<Rightarrow> image \<Rightarrow> int \<Rightarrow> int \<Rightarrow> int \<Rightarrow> 'f line_data list \<Rightarrow> py_exception + image" where
  "draw_lines T im footer_center_x line_spacing current_y [] = Inr im"
| "draw_lines T im footer_center_x line_spacing current_y ((line, font, w, h) # rest) =
     (case draw_text T im (footer_center_x - w div 2, current_y) line font of
        Inl e \<Rightarrow> Inl e
      | Inr px \<Rightarrow>
          draw_lines T (im\<lparr>getpixel := px\<rparr>) footer_center_x line_spacing
            (current_y + h + line_spacing) rest)"

definition draw_footer_text ::
  "'f typesetter \<Rightarrow> caption_preset \<Rightarrow> image \<Rightarrow> string list \<Rightarrow> int \<times> int \<times> int \<times> int \<Rightarrow> int
     \<Rightarrow> py_exception + image" where
  "draw_footer_text T preset im lines footer_rect font_size_base =
     (if lines = [] then Inr im
      else
        let font_main = load_font T font_size_base;
            font_sub = load_font T (py_int (of_int font_size_base * sub_fraction preset));
            line_spacing = py_int (of_int font_size_base * spacing_fraction preset);
            line_data = measure_lines T font_main font_sub (enumerate 0 lines);
            total = total_text_height line_spacing (length lines) (enumerate 0 line_data)
        in case footer_rect of (r0, r1, r2, r3) \<Rightarrow>
             draw_lines T im ((r0 + r2) div 2) line_spacing ((r1 + r3) div 2 - total div 2) line_data)"

text \<open>
  \<^verbatim>\<open>
  branding_lines = []
  if practice_name:
      branding_lines.append(practice_name)
  if plus_code:
      branding_lines.append(plus_code)
  if branding_lines:
      font_size_base = max(int(footer_height * 0.18), 24)
      footer_rect = (0, footer_y_start, img.width, img.height + footer_height)
      draw_footer_text(draw, branding_lines, footer_rect, font_size_base)
  \<close>
  The drawing changes the canvas object.  After an exception the canvas is never read again,
  so the store is returned as it was before the call.
\<close>

definition branding_lines_of :: "string \<Rightarrow> string \<Rightarrow> string list" where
  "branding_lines_of practice_name plus_code =
     (if practice_name \<noteq> [] then [practice_name] else []) @ (if plus_code \<noteq> [] then [plus_code] else [])"

definition caption ::
  "'f typesetter \<Rightarrow> caption_preset \<Rightarrow> store \<Rightarrow> ref \<Rightarrow> ref \<Rightarrow> int \<Rightarrow> int \<Rightarrow> string \<Rightarrow> string
     \<Rightarrow> py_exception + store" where
  "caption T preset s img clean_img footer_height footer_y_start practice_name plus_code =
     (let branding_lines = branding_lines_of practice_name plus_code in
      if branding_lines \<noteq> [] then
        let font_size_base = max (py_int (of_int footer_height * base_fraction preset)) (base_floor preset);
            footer_rect = (0, footer_y_start, width (obj s img), height (obj s img) + footer_height)
        in case draw_footer_text T preset (obj s clean_img) branding_lines footer_rect font_size_base of
             Inl e \<Rightarrow> Inl e
           | Inr im \<Rightarrow> Inr (s\<lparr>obj := (obj s)(clean_img := im)\<rparr>)
      else Inr s)"

subsection \<open>Composition of one photo in \<open>process_photos\<close>\<close>

definition compose ::
  "resampler \<Rightarrow> 'f typesetter \<Rightarrow> store \<Rightarrow> ref \<Rightarrow> ref option \<Rightarrow> ref option \<Rightarrow> string \<Rightarrow> string
     \<Rightarrow> (py_exception + ref) \<times> store" where
  "compose lanczos T s img logo_img qr_img practice_name plus_code =
     (case make_canvas s img of (clean_img, footer_height, s1) \<Rightarrow>
        let footer_y_start = height (obj s1 img);
            side_padding = side_padding_of (width (obj s1 img));
            s2 = overlay_logo_copy lanczos s1 img clean_img side_padding logo_img;
            s3 = overlay_qr_copy lanczos s2 img clean_img side_padding qr_img
        in case caption T process_preset s3 img clean_img footer_height footer_y_start
                  practice_name plus_code of
             Inl e \<Rightarrow> (Inl e, s3)
           | Inr s4 \<Rightarrow> (Inr clean_img, s4))"

section \<open>The batch handler \<open>process_photos\<close>\<close>

subsection \<open>Collaborators and the world\<close>

text \<open>
  The HTTP client, the codecs, the QR encoder and \<open>secure_filename\<close> are outside the
  program; they are parameters, and each fallible one returns its exception as a value.
  \<open>'b\<close> is the type of byte strings, \<open>'f\<close> the type of fonts.  \<open>decode_photo\<close> stands for
  \<open>Image.open\<close>, \<open>ImageOps.exif_transpose\<close> and \<open>convert('RGBA')\<close> on a photo, \<open>decode_overlay\<close>
  for \<open>Image.open(...).convert('RGBA')\<close> on a logo or a stored QR image, \<open>qr_make_image\<close> for
  the QR encoder up to \<open>convert('RGBA')\<close>.  \<open>vercel\<close> is the environment flag \<open>IS_VERCEL\<close>.
\<close>

record rgb_image =
  rgb_width :: int
  rgb_height :: int
  rgb_getpixel :: "int \<Rightarrow> int \<Rightarrow> 8 word \<times> 8 word \<times> 8 word"

record ('b, 'f) env =
  vercel :: bool
  requests_get :: "string \<Rightarrow> py_exception + int \<times> 'b"
  requests_put :: "string \<Rightarrow> 'b \<Rightarrow> string \<Rightarrow> py_exception + int \<times> string"
  blob_token :: string
  decode_photo :: "'b \<Rightarrow> py_exception + image"
  decode_overlay :: "'b \<Rightarrow> py_exception + image"
  qr_make_image :: "string \<Rightarrow> py_exception + image"
  lanczos :: resampler
  typeset :: "'f typesetter"
  save_jpeg :: "rgb_image \<Rightarrow> nat \<Rightarrow> py_exception + 'b"
  save_png :: "image \<Rightarrow> py_exception + 'b"
  secure_filename :: "string \<Rightarrow> string"

text \<open>
  The world a handler runs in: the image objects, the files on disk (path and content, for
  the \<open>upload\<close> handler) and the trace of the external effects so far.
\<close>

datatype 'b event =
  Http_get string
| Http_put string 'b
| File_write string 'b
| File_remove string

record 'b world =
  images :: store
  files :: "(string \<times> 'b) list"
  trace :: "'b event list"

text \<open>
  \<^verbatim>\<open>
  def download_from_url(url):
      response = requests.get(url)
      if response.status_code == 200:
          return BytesIO(response.content)
      else:
          raise Exception(f"Failed to download from URL: {response.status_code}")
  \<close>
\<close>

definition download_from_url ::
  "('b, 'f) env \<Rightarrow> 'b world \<Rightarrow> string \<Rightarrow> (py_exception + 'b) \<times> 'b world" where
  "download_from_url E w url =
     (let w' = w\<lparr>trace := trace w @ [Http_get url]\<rparr> in
      case requests_get E url of
        Inl e \<Rightarrow> (Inl e, w')
      | Inr (status_code, content) \<Rightarrow>
          if status_code = 200 then (Inr content, w')
          else (Inl (Exception ''Failed to download from URL''), w'))"

text \<open>
  \<^verbatim>\<open>
  def upload_to_blob(file_content, filename, content_type='image/jpeg'):
      if not BLOB_READ_WRITE_TOKEN:
          raise Exception("BLOB_READ_WRITE_TOKEN not configured")
      ...
      response = requests.put(f'https://blob.vercel-storage.com/{filename}',
                              headers=headers, data=file_content)
      if response.status_code == 200:
          result = response.json()
          return result.get('url')
      else:
          raise Exception(f"Failed to upload to Blob: ...")
  \<close>
\<close>

definition upload_to_blob ::
  "('b, 'f) env \<Rightarrow> 'b world \<Rightarrow> 'b \<Rightarrow> string \<Rightarrow> string \<Rightarrow> (py_exception + string) \<times> 'b world" where
  "upload_to_blob E w file_content filename content_type =
     (if blob_token E = [] then (Inl (Exception ''BLOB_READ_WRITE_TOKEN not configured''), w)
      else
        let url = ''https://blob.vercel-storage.com/'' @ filename;
            w' = w\<lparr>trace := trace w @ [Http_put url file_content]\<rparr>
        in case requests_put E url file_content content_type of
             Inl e \<Rightarrow> (Inl e, w')
           | Inr (status_code, result_url) \<Rightarrow>
               if status_code = 200 then (Inr result_url, w')
               else (Inl (Exception ''Failed to upload to Blob''), w'))"

subsection \<open>Strings of the standard library\<close>

text \<open>\<open>str(n)\<close> for a natural number: its decimal digits.\<close>

fun str_nat :: "nat \<Rightarrow> string" where
  "str_nat n =
     (if n < 10 then [''0123456789'' ! n]
      else str_nat (n div 10) @ [''0123456789'' ! (n mod 10)])"

declare str_nat.simps [simp del]

text \<open>
  \<open>os.path.splitext\<close>: the extension starts at the last dot of the last path component,
  unless that component has only leading dots before it.
  \<^verbatim>\<open>
  sepIndex = p.rfind(sep)
  dotIndex = p.rfind(extsep)
  if dotIndex > sepIndex:
      filenameIndex = sepIndex + 1
      while filenameIndex < dotIndex:
          if p[filenameIndex:filenameIndex+1] != extsep:
              return p[:dotIndex], p[dotIndex:]
          filenameIndex += 1
  return p, p[:0]
  \<close>
\<close>

definition rfind :: "string \<Rightarrow> char \<Rightarrow> int" where
  "rfind p c =
     (if c \<in> set p then int (length p) - 1 - int (length (takeWhile (\<lambda>d. d \<noteq> c) (rev p))) else - 1)"

definition splitext :: "string \<Rightarrow> string \<times> string" where
  "splitext p =
     (let sepIndex = rfind p (CHR ''/'');
          dotIndex = rfind p (CHR ''.'')
      in if dotIndex > sepIndex
            \<and> list_ex (\<lambda>c. c \<noteq> CHR ''.'') (take (nat (dotIndex - (sepIndex + 1))) (drop (nat (sepIndex + 1)) p))
         then (take (nat dotIndex) p, drop (nat dotIndex) p)
         else (p, []))"

text \<open>\<open>s.strip()\<close>, for ASCII text: the white space of \<open>str.isspace\<close> below code 128.\<close>

definition isspace :: "char \<Rightarrow> bool" where
  "isspace c =
     (c \<in> set [CHR 0x09, CHR 0x0A, CHR 0x0B, CHR 0x0C, CHR 0x0D,
                CHR 0x1C, CHR 0x1D, CHR 0x1E, CHR 0x1F, CHR 0x20])"

definition py_strip :: "string \<Rightarrow> string" where
  "py_strip s = rev (dropWhile isspace (rev (dropWhile isspace s)))"

subsection \<open>One photo\<close>

text \<open>
  The body of the \<open>try\<close> block of the loop.  The result is the entry appended to
  \<open>processed_urls\<close>, or the exception that the \<open>except Exception\<close> clause catches.
  \<^verbatim>\<open>
  if i < len(file_names) and file_names[i]:
      base_name = file_names[i]
      base_name = os.path.splitext(base_name)[0]
      base_name = secure_filename(base_name)
  else:
      base_name = f"photo_{i+1}"
  output_name = f"{base_name}.jpg"
  output_buffer = BytesIO()
  rgb_img = clean_img.convert('RGB')
  rgb_img.save(output_buffer, 'JPEG', quality=95)
  output_buffer.seek(0)
  processed_url = upload_to_blob(output_buffer.read(), output_name, 'image/jpeg')
  processed_urls.append({'url': processed_url, 'filename': output_name})
  \<close>
\<close>

definition convert_RGB :: "image \<Rightarrow> rgb_image" where
  "convert_RGB im =
     \<lparr>rgb_width = width im, rgb_height = height im,
      rgb_getpixel = (\<lambda>x y. case getpixel im x y of (r, g, b, a) \<Rightarrow> (r, g, b))\<rparr>"

definition output_name_of :: "('b, 'f) env \<Rightarrow> string list \<Rightarrow> nat \<Rightarrow> string" where
  "output_name_of E file_names i =
     (let base_name =
            (if i < length file_names \<and> file_names ! i \<noteq> []
             then secure_filename E (fst (splitext (file_names ! i)))
             else ''photo_'' @ str_nat (i + 1))
      in base_name @ ''.jpg'')"

record processed =
  url :: string
  filename :: string

definition process_photo ::
  "('b, 'f) env \<Rightarrow> 'b world \<Rightarrow> ref option \<Rightarrow> ref option \<Rightarrow> string \<Rightarrow> string \<Rightarrow> string list
     \<Rightarrow> nat \<Rightarrow> string \<Rightarrow> (py_exception + processed) \<times> 'b world" where
  "process_photo E w logo_img qr_img practice_name plus_code file_names i photo_url =
     (case download_from_url E w photo_url of
        (Inl e, w1) \<Rightarrow> (Inl e, w1)
      | (Inr photo_data, w1) \<Rightarrow>
     (case decode_photo E photo_data of
        Inl e \<Rightarrow> (Inl e, w1)
      | Inr raster \<Rightarrow>
     (case alloc (images w1) raster of (img, s1) \<Rightarrow>
     (case compose (lanczos E) (typeset E) s1 img logo_img qr_img practice_name plus_code of
        (Inl e, s2) \<Rightarrow> (Inl e, w1\<lparr>images := s2\<rparr>)
      | (Inr clean_img, s2) \<Rightarrow>
     (let output_name = output_name_of E file_names i;
          rgb_img = convert_RGB (obj s2 clean_img)
      in case save_jpeg E rgb_img 95 of
           Inl e \<Rightarrow> (Inl e, w1\<lparr>images := s2\<rparr>)
         | Inr output_buffer \<Rightarrow>
     (case upload_to_blob E (w1\<lparr>images := s2\<rparr>) output_buffer output_name ''image/jpeg'' of
        (Inl e, w3) \<Rightarrow> (Inl e, w3)
      | (Inr processed_url, w3) \<Rightarrow>
          (Inr \<lparr>url = processed_url, filename = output_name\<rparr>, w3)))))))"

subsection \<open>The loop and the handler\<close>

text \<open>
  \<^verbatim>\<open>
  for i, photo_url in enumerate(photo_urls):
      try:
          ...
      except Exception as e:
          print(f"Error processing photo {i}: {e}")
          continue
  \<close>
\<close>

fun process_loop ::
  "('b, 'f) env \<Rightarrow> ref option \<Rightarrow> ref option \<Rightarrow> string \<Rightarrow> string \<Rightarrow> string list
     \<Rightarrow> 'b world \<Rightarrow> processed list \<Rightarrow> (nat \<times> string) list \<Rightarrow> processed list \<times> 'b world" where
  "process_loop E logo_img qr_img practice_name plus_code file_names w processed_urls [] =
     (processed_urls, w)"
| "process_loop E logo_img qr_img practice_name plus_code file_names w processed_urls
     ((i, photo_url) # rest) =
     (case process_photo E w logo_img qr_img practice_name plus_code file_names i photo_url of
        (Inl e, w') \<Rightarrow>
          process_loop E logo_img qr_img practice_name plus_code file_names w' processed_urls rest
      | (Inr entry, w') \<Rightarrow>
          process_loop E logo_img qr_img practice_name plus_code file_names w'
            (processed_urls @ [entry]) rest)"

text \<open>
  The JSON body of the request.  \<open>None\<close> as the whole body stands for a body that parses to a
  falsy value, such as \<open>null\<close> or \<open>{}\<close> (\<open>if not data\<close>); absent keys take the defaults of
  \<open>data.get\<close>.  A request whose body is absent or is not JSON never reaches this code:
  \<open>get_json\<close> raises, and it is not modelled here.
\<close>

record request =
  photo_urls :: "string list"
  logo_url :: "string option"
  qr_url :: "string option"
  practice_name :: string
  plus_code :: string
  file_names :: "string list"

datatype response =
  Json_error string nat
| Json_success "processed list"

definition load_logo :: "('b, 'f) env \<Rightarrow> 'b world \<Rightarrow> string option \<Rightarrow> ref option \<times> 'b world" where
  "load_logo E w logo_url_opt =
     (case logo_url_opt of
        None \<Rightarrow> (None, w)
      | Some u \<Rightarrow>
          if u = [] then (None, w)
          else (case download_from_url E w u of
                  (Inl e, w1) \<Rightarrow> (None, w1)
                | (Inr logo_data, w1) \<Rightarrow>
                    (case decode_overlay E logo_data of
                       Inl e \<Rightarrow> (None, w1)
                     | Inr raster \<Rightarrow>
                         (case alloc (images w1) raster of
                            (logo_img, s) \<Rightarrow> (Some logo_img, w1\<lparr>images := s\<rparr>)))))"

definition make_qr :: "('b, 'f) env \<Rightarrow> 'b world \<Rightarrow> string option \<Rightarrow> ref option \<times> 'b world" where
  "make_qr E w qr_url_opt =
     (case qr_url_opt of
        None \<Rightarrow> (None, w)
      | Some u \<Rightarrow>
          if u = [] then (None, w)
          else (case qr_make_image E (clean_qr_url u) of
                  Inl e \<Rightarrow> (None, w)
                | Inr raster \<Rightarrow>
                    (case alloc (images w) raster of
                       (qr_img, s) \<Rightarrow> (Some qr_img, w\<lparr>images := s\<rparr>))))"

definition process_photos ::
  "('b, 'f) env \<Rightarrow> 'b world \<Rightarrow> request option \<Rightarrow> response \<times> 'b world" where
  "process_photos E w data =
     (case data of
        None \<Rightarrow> (Json_error ''No data provided'' 400, w)
      | Some d \<Rightarrow>
          if photo_urls d = [] then (Json_error ''No photos provided'' 400, w)
          else
            (case load_logo E w (logo_url d) of (logo_img, w1) \<Rightarrow>
            (case make_qr E w1 (qr_url d) of (qr_img, w2) \<Rightarrow>
            (case process_loop E logo_img qr_img (py_strip (practice_name d)) (py_strip (plus_code d))
                    (file_names d) w2 [] (enumerate 0 (photo_urls d)) of
               (processed_urls, w3) \<Rightarrow>
                 if processed_urls = [] then (Json_error ''Failed to process any photos'' 500, w3)
                 else (Json_success processed_urls, w3)))))"

section \<open>The batch handler \<open>upload\<close>\<close>

subsection \<open>Files and paths\<close>

text \<open>
  The disk is a list of paths with their contents.  Directories are not modelled:
  \<open>os.makedirs\<close> changes no file.  \<open>os.remove\<close> is only called on a path that exists.
\<close>

definition fs_exists :: "(string \<times> 'b) list \<Rightarrow> string \<Rightarrow> bool" where
  "fs_exists fs path = (path \<in> set (map fst fs))"

definition fs_remove :: "(string \<times> 'b) list \<Rightarrow> string \<Rightarrow> (string \<times> 'b) list" where
  "fs_remove fs path = filter (\<lambda>entry. fst entry \<noteq> path) fs"

definition fs_write :: "(string \<times> 'b) list \<Rightarrow> string \<Rightarrow> 'b \<Rightarrow> (string \<times> 'b) list" where
  "fs_write fs path content = (path, content) # fs_remove fs path"

definition file_save :: "'b world \<Rightarrow> string \<Rightarrow> 'b \<Rightarrow> 'b world" where
  "file_save w path content =
     w\<lparr>files := fs_write (files w) path content, trace := trace w @ [File_write path content]\<rparr>"

definition os_remove :: "'b world \<Rightarrow> string \<Rightarrow> 'b world" where
  "os_remove w path = w\<lparr>files := fs_remove (files w) path, trace := trace w @ [File_remove path]\<rparr>"

text \<open>\<open>os.path.join\<close> of two components and \<open>os.path.basename\<close>, for POSIX paths.\<close>

definition path_join :: "string \<Rightarrow> string \<Rightarrow> string" where
  "path_join a b =
     (if startswith b ''/'' then b
      else if a = [] \<or> last a = CHR ''/'' then a @ b
      else a @ ''/'' @ b)"

definition basename :: "string \<Rightarrow> string" where
  "basename p = rev (takeWhile (\<lambda>c. c \<noteq> CHR ''/'') (rev p))"

definition UPLOAD_FOLDER :: "('b, 'f) env \<Rightarrow> string" where
  "UPLOAD_FOLDER E = (if vercel E then ''/tmp/uploads/'' else ''uploads/'')"

definition PROCESSED_FOLDER :: "('b, 'f) env \<Rightarrow> string" where
  "PROCESSED_FOLDER E = (if vercel E then ''/tmp/processed/'' else ''processed/'')"

text \<open>
  \<^verbatim>\<open>
  def allowed_file(filename):
      return '.' in filename and \
             filename.rsplit('.', 1)[1].lower() in ALLOWED_EXTENSIONS
  \<close>
  \<open>lower\<close> and \<open>endswith\<close> are those of ASCII text.
\<close>

definition lower_char :: "char \<Rightarrow> char" where
  "lower_char c =
     (case map_of (zip ''ABCDEFGHIJKLMNOPQRSTUVWXYZ'' ''abcdefghijklmnopqrstuvwxyz'') c of
        None \<Rightarrow> c
      | Some l \<Rightarrow> l)"

definition py_lower :: "string \<Rightarrow> string" where
  "py_lower s = map lower_char s"

definition endswith :: "string \<Rightarrow> string \<Rightarrow> bool" where
  "endswith s suffix = startswith (rev s) (rev suffix)"

definition allowed_file :: "string \<Rightarrow> bool" where
  "allowed_file fname =
     (CHR ''.'' \<in> set fname
      \<and> py_lower (rev (takeWhile (\<lambda>c. c \<noteq> CHR ''.'') (rev fname)))
          \<in> set [''png'', ''jpg'', ''jpeg'', ''gif''])"

subsection \<open>Unique output names\<close>

text \<open>
  \<^verbatim>\<open>
  output_name = f"{base_name}{original_ext}"
  output_path = os.path.join(PROCESSED_FOLDER, output_name)
  counter = 1
  while os.path.exists(output_path):
      output_name = f"{base_name}_{counter}{original_ext}"
      output_path = os.path.join(PROCESSED_FOLDER, output_name)
      counter += 1
  \<close>
  The loop ends because the disk holds finitely many paths and the candidate names grow
  longer than all of them.
\<close>

function unique_output_name ::
  "(string \<times> 'b) list \<Rightarrow> string \<Rightarrow> string \<Rightarrow> string \<Rightarrow> nat \<Rightarrow> string \<Rightarrow> string" where
  "unique_output_name fs folder base_name original_ext counter output_name =
     (if fs_exists fs (path_join folder output_name)
      then unique_output_name fs folder base_name original_ext (counter + 1)
             (base_name @ ''_'' @ str_nat counter @ original_ext)
      else output_name)"
  by pat_completeness auto
termination
proof (relation "measure (\<lambda>(fs, folder, base_name, original_ext, counter, output_name).
          (if fs_exists fs (path_join folder output_name) then 1 else 0)
          + 2 * card {k. counter \<le> k
                \<and> fs_exists fs (path_join folder (base_name @ ''_'' @ str_nat k @ original_ext))})",
    goal_cases)
  case 1
  show ?case by simp
next
  case (2 fs folder base_name original_ext counter output_name)
  let ?nm = "\<lambda>k. path_join folder (base_name @ ''_'' @ str_nat k @ original_ext)"
  let ?S = "\<lambda>c. {k. c \<le> k \<and> fs_exists fs (?nm k)}"
  have digits: "n < 10 ^ length (str_nat n)" for n
  proof (induction n rule: str_nat.induct)
    case (1 n)
    show ?case
    proof (cases "n < 10")
      case True
      then show ?thesis by (subst str_nat.simps) simp
    next
      case False
      then have "n div 10 < 10 ^ length (str_nat (n div 10))" using 1 by simp
      then have "n < 10 * 10 ^ length (str_nat (n div 10))" by linarith
      then show ?thesis using False by (subst str_nat.simps) simp
    qed
  qed
  define bound where "bound = sum_list (map (length \<circ> fst) fs)"
  have len: "length p \<le> bound" if "fs_exists fs p" for p
  proof -
    have "length p \<in> set (map (length \<circ> fst) fs)"
      using that by (auto simp add: fs_exists_def)
    then show ?thesis unfolding bound_def by (simp only: member_le_sum_list)
  qed
  have joinlen: "length b \<le> length (path_join a b)" for a b
    by (simp add: path_join_def)
  have "k < 10 ^ bound" if "fs_exists fs (?nm k)" for k
  proof -
    have "length (str_nat k) \<le> length (?nm k)"
      using joinlen [of "base_name @ ''_'' @ str_nat k @ original_ext" folder] by simp
    then have "length (str_nat k) \<le> bound" using len [OF that] by simp
    then have "(10::nat) ^ length (str_nat k) \<le> 10 ^ bound" by (simp add: power_increasing)
    with digits [of k] show ?thesis by (rule less_le_trans)
  qed
  then have "?S 0 \<subseteq> {k. k < 10 ^ bound}" by auto
  then have fin0: "finite (?S 0)" by (rule finite_subset) simp
  have fin: "finite (?S c)" for c
    by (rule finite_subset [OF _ fin0]) auto
  show ?case
  proof (cases "fs_exists fs (?nm counter)")
    case True
    have "counter \<in> ?S counter" "counter \<notin> ?S (counter + 1)" "?S (counter + 1) \<subseteq> ?S counter"
      using True by auto
    then have "?S (counter + 1) \<subset> ?S counter" by blast
    then have "card (?S (counter + 1)) < card (?S counter)"
      using fin by (simp add: psubset_card_mono)
    then show ?thesis using 2 by simp
  next
    case False
    have "?S (counter + 1) = ?S counter"
      using False by (auto simp add: le_Suc_eq Suc_le_eq) (metis le_neq_implies_less)
    then show ?thesis using 2 False by simp
  qed
qed

subsection \<open>One uploaded photo\<close>

text \<open>An upload of the request: the file name the client sent and the bytes.\<close>

record 'b file_storage =
  upload_name :: string
  upload_bytes :: 'b

text \<open>
  In \<open>upload\<close> the logo and the QR image are files; each photo opens them again:
  \<^verbatim>\<open>
  if logo and os.path.exists(logo):
      try:
          with Image.open(logo) as logo_img:
              logo_img = logo_img.convert('RGBA')
              logo_img.thumbnail((int(img.width * 0.3), target_element_height), Image.LANCZOS)
              ...
      except Exception as e:
          print(f"Error processing logo: {e}")
  \<close>
\<close>

definition overlay_logo_file ::
  "('b, 'f) env \<Rightarrow> (string \<times> 'b) list \<Rightarrow> store \<Rightarrow> ref \<Rightarrow> ref \<Rightarrow> int \<Rightarrow> string option \<Rightarrow> store" where
  "overlay_logo_file E fs s img clean_img side_padding logo =
     (case logo of
        None \<Rightarrow> s
      | Some logo_path \<Rightarrow>
          (case map_of fs logo_path of
             None \<Rightarrow> s
           | Some logo_data \<Rightarrow>
               (case decode_overlay E logo_data of
                  Inl e \<Rightarrow> s
                | Inr raster \<Rightarrow>
                    (case alloc s raster of
                       (logo_img, s1) \<Rightarrow> place_logo (lanczos E) s1 img clean_img side_padding logo_img))))"

definition overlay_qr_file ::
  "('b, 'f) env \<Rightarrow> (string \<times> 'b) list \<Rightarrow> store \<Rightarrow> ref \<Rightarrow> ref \<Rightarrow> int \<Rightarrow> string option \<Rightarrow> store" where
  "overlay_qr_file E fs s img clean_img side_padding qr_code =
     (case qr_code of
        None \<Rightarrow> s
      | Some qr_path \<Rightarrow>
          (case map_of fs qr_path of
             None \<Rightarrow> s
           | Some qr_data \<Rightarrow>
               (case decode_overlay E qr_data of
                  Inl e \<Rightarrow> s
                | Inr raster \<Rightarrow>
                    (case alloc s raster of
                       (qr_img, s1) \<Rightarrow> place_qr (lanczos E) s1 img clean_img side_padding qr_img))))"

definition compose_upload ::
  "('b, 'f) env \<Rightarrow> (string \<times> 'b) list \<Rightarrow> store \<Rightarrow> ref \<Rightarrow> string option \<Rightarrow> string option
     \<Rightarrow> string \<Rightarrow> string \<Rightarrow> (py_exception + ref) \<times> store" where
  "compose_upload E fs s img logo qr_code name_line code_line =
     (case make_canvas s img of (clean_img, footer_height, s1) \<Rightarrow>
        let footer_y_start = height (obj s1 img);
            side_padding = side_padding_of (width (obj s1 img));
            s2 = overlay_logo_file E fs s1 img clean_img side_padding logo;
            s3 = overlay_qr_file E fs s2 img clean_img side_padding qr_code
        in case caption (typeset E) upload_preset s3 img clean_img footer_height footer_y_start
                  name_line code_line of
             Inl e \<Rightarrow> (Inl e, s3)
           | Inr s4 \<Rightarrow> (Inr clean_img, s4))"

text \<open>
  \<^verbatim>\<open>
  original_ext = os.path.splitext(photo.filename)[1].lower()
  if not original_ext or original_ext not in ['.png', '.jpg', '.jpeg', '.gif']:
      original_ext = '.png'
  base_name = file_names[i] if i < len(file_names) else f"photo_{i+1}"
  base_name = os.path.splitext(base_name)[0]
  base_name = secure_filename(base_name)
  \<close>
\<close>

definition original_ext_of :: "string \<Rightarrow> string" where
  "original_ext_of photo_filename =
     (let original_ext = py_lower (snd (splitext photo_filename))
      in if original_ext = [] \<or> original_ext \<notin> set [''.png'', ''.jpg'', ''.jpeg'', ''.gif'']
         then ''.png'' else original_ext)"

definition upload_base_name :: "('b, 'f) env \<Rightarrow> string list \<Rightarrow> nat \<Rightarrow> string" where
  "upload_base_name E names i =
     secure_filename E
       (fst (splitext (if i < length names then names ! i else ''photo_'' @ str_nat (i + 1))))"

text \<open>
  \<^verbatim>\<open>
  if output_name.lower().endswith('.png'):
      clean_img.save(output_path, 'PNG')
  else:
      rgb_img = clean_img.convert('RGB')
      rgb_img.save(output_path, 'JPEG', quality=95)
  \<close>
\<close>

datatype codec = PNG | JPEG nat

definition output_codec :: "string \<Rightarrow> codec" where
  "output_codec output_name = (if endswith (py_lower output_name) ''.png'' then PNG else JPEG 95)"

definition encode_output :: "('b, 'f) env \<Rightarrow> string \<Rightarrow> image \<Rightarrow> py_exception + 'b" where
  "encode_output E output_name clean_img =
     (case output_codec output_name of
        PNG \<Rightarrow> save_png E clean_img
      | JPEG quality \<Rightarrow> save_jpeg E (convert_RGB clean_img) quality)"

text \<open>
  The body of the \<open>try\<close> block of the loop of \<open>upload\<close>.  The result is the pair appended to
  \<open>processed_files\<close> and \<open>output_filenames\<close>, or the exception that \<open>except Exception\<close> catches.
\<close>

definition upload_photo ::
  "('b, 'f) env \<Rightarrow> 'b world \<Rightarrow> string option \<Rightarrow> string option \<Rightarrow> string \<Rightarrow> string \<Rightarrow> string list
     \<Rightarrow> nat \<Rightarrow> 'b file_storage \<Rightarrow> (py_exception + string \<times> string) \<times> 'b world" where
  "upload_photo E w logo qr_code name_line code_line names i photo =
     (let file_path = path_join (UPLOAD_FOLDER E) (secure_filename E (upload_name photo));
          w1 = file_save w file_path (upload_bytes photo)
      in case decode_photo E (upload_bytes photo) of
           Inl e \<Rightarrow> (Inl e, w1)
         | Inr raster \<Rightarrow>
      (case alloc (images w1) raster of (img, s1) \<Rightarrow>
      (case compose_upload E (files w1) s1 img logo qr_code name_line code_line of
         (Inl e, s2) \<Rightarrow> (Inl e, w1\<lparr>images := s2\<rparr>)
       | (Inr clean_img, s2) \<Rightarrow>
      (let original_ext = original_ext_of (upload_name photo);
           base_name = upload_base_name E names i;
           output_name = unique_output_name (files w1) (PROCESSED_FOLDER E) base_name original_ext 1
                           (base_name @ original_ext);
           output_path = path_join (PROCESSED_FOLDER E) output_name
       in case encode_output E output_name (obj s2 clean_img) of
            Inl e \<Rightarrow> (Inl e, w1\<lparr>images := s2\<rparr>)
          | Inr encoded \<Rightarrow>
              (Inr (output_path, basename output_path),
               os_remove (file_save (w1\<lparr>images := s2\<rparr>) output_path encoded) file_path)))))"

subsection \<open>The loop and the handler\<close>

fun upload_loop ::
  "('b, 'f) env \<Rightarrow> string option \<Rightarrow> string option \<Rightarrow> string \<Rightarrow> string \<Rightarrow> string list
     \<Rightarrow> 'b world \<Rightarrow> (string \<times> string) list \<Rightarrow> (nat \<times> 'b file_storage) list
     \<Rightarrow> (string \<times> string) list \<times> 'b world" where
  "upload_loop E logo qr_code name_line code_line names w done [] = (done, w)"
| "upload_loop E logo qr_code name_line code_line names w done ((i, photo) # rest) =
     (case upload_photo E w logo qr_code name_line code_line names i photo of
        (Inl e, w') \<Rightarrow> upload_loop E logo qr_code name_line code_line names w' done rest
      | (Inr entry, w') \<Rightarrow>
          upload_loop E logo qr_code name_line code_line names w' (done @ [entry]) rest)"

text \<open>
  The multipart request: \<open>None\<close> for a file field that is absent from \<open>request.files\<close>.
\<close>

record 'b upload_request =
  form_logo :: "'b file_storage option"
  form_qr_url :: string
  form_practice_name :: string
  form_plus_code :: string
  form_photos :: "'b file_storage list option"
  form_file_names :: "string list"

datatype upload_response =
  Upload_error string nat
| Upload_success "string list"

text \<open>
  \<^verbatim>\<open>
  if logo and os.path.exists(logo):
      os.remove(logo)
  if qr_code and os.path.exists(qr_code):
      os.remove(qr_code)
  \<close>
\<close>

definition remove_if_exists :: "'b world \<Rightarrow> string option \<Rightarrow> 'b world" where
  "remove_if_exists w path_opt =
     (case path_opt of
        None \<Rightarrow> w
      | Some path \<Rightarrow> if fs_exists (files w) path then os_remove w path else w)"

definition cleanup :: "'b world \<Rightarrow> string option \<Rightarrow> string option \<Rightarrow> 'b world" where
  "cleanup w logo qr_code = remove_if_exists (remove_if_exists w logo) qr_code"

text \<open>
  The logo stage: an upload named with a disallowed extension ends the request, any other
  is stored as \<open>temp_logo.png\<close>.
\<close>

definition logo_stage ::
  "('b, 'f) env \<Rightarrow> 'b world \<Rightarrow> 'b file_storage option \<Rightarrow> (upload_response + string option) \<times> 'b world" where
  "logo_stage E w logo_opt =
     (case logo_opt of
        None \<Rightarrow> (Inr None, w)
      | Some logo_file \<Rightarrow>
          if upload_name logo_file = [] then (Inr None, w)
          else if \<not> allowed_file (upload_name logo_file)
          then (Inl (Upload_error ''Invalid logo file type. Allowed types: png, jpg, jpeg, gif'' 400), w)
          else
            let logo_path = path_join (UPLOAD_FOLDER E) ''temp_logo.png''
            in (Inr (Some logo_path), file_save w logo_path (upload_bytes logo_file)))"

text \<open>
  The QR stage.  The QR image is generated and stored as \<open>generated_qr.png\<close>.  When the
  generation fails the handler removes the logo and answers 400; with no logo its call
  \<open>os.path.exists(logo)\<close> raises on \<open>None\<close>, and the outer handler answers 500.
\<close>

definition qr_stage ::
  "('b, 'f) env \<Rightarrow> 'b world \<Rightarrow> string option \<Rightarrow> string \<Rightarrow> (upload_response + string option) \<times> 'b world" where
  "qr_stage E w logo qr_url_form =
     (let qr_url_stripped = py_strip qr_url_form in
      if qr_url_stripped = [] then (Inr None, w)
      else
        (case (case qr_make_image E (clean_qr_url qr_url_stripped) of
                 Inl e \<Rightarrow> Inl e
               | Inr qr_img \<Rightarrow> save_png E qr_img) of
           Inr qr_bytes \<Rightarrow>
             let qr_path = path_join (UPLOAD_FOLDER E) ''generated_qr.png''
             in (Inr (Some qr_path), file_save w qr_path qr_bytes)
         | Inl e \<Rightarrow>
             (case logo of
                None \<Rightarrow> (Inl (Upload_error ''An error occurred during processing'' 500), w)
              | Some logo_path \<Rightarrow>
                  (Inl (Upload_error ''Error generating QR code'' 400),
                   if fs_exists (files w) logo_path then os_remove w logo_path else w))))"

definition upload ::
  "('b, 'f) env \<Rightarrow> 'b world \<Rightarrow> 'b upload_request \<Rightarrow> upload_response \<times> 'b world" where
  "upload E w req =
     (case logo_stage E w (form_logo req) of
        (Inl err, w1) \<Rightarrow> (err, w1)
      | (Inr logo, w1) \<Rightarrow>
     (case qr_stage E w1 logo (form_qr_url req) of
        (Inl err, w2) \<Rightarrow> (err, w2)
      | (Inr qr_code, w2) \<Rightarrow>
     (let photos = (case form_photos req of None \<Rightarrow> [] | Some ps \<Rightarrow> ps) in
      if form_photos req = None \<or> \<not> list_ex (\<lambda>f. upload_name f \<noteq> []) photos
      then (Upload_error ''No photos uploaded'' 400, cleanup w2 logo qr_code)
      else
        let valid_photos = filter (\<lambda>photo. upload_name photo \<noteq> [] \<and> allowed_file (upload_name photo)) photos
        in if valid_photos = []
           then (Upload_error ''No valid photos uploaded. Supported formats: png, jpg, jpeg, gif'' 400,
                 cleanup w2 logo qr_code)
           else
             let names = (if form_file_names req = [] \<or> length (form_file_names req) \<noteq> length valid_photos
                          then map (\<lambda>photo. fst (splitext (upload_name photo))) valid_photos
                          else form_file_names req)
             in case upload_loop E logo qr_code (py_strip (form_practice_name req))
                       (py_strip (form_plus_code req)) names w2 [] (enumerate 0 valid_photos) of
                  (done, w3) \<Rightarrow>
                    if done = [] then (Upload_error ''Failed to process any photos'' 500, cleanup w3 logo qr_code)
                    else (Upload_success (map snd done), cleanup w3 logo qr_code))))"

section \<open>The composition as a value\<close>

text \<open>
  What the composer is said to compute, written on raster values with no store: the white
  canvas with the photo pasted through its own alpha, then each overlay that could be scaled,
  at half opacity.  The store-level code above is compared with this reading below.
\<close>

definition overlay_value :: "image \<Rightarrow> py_exception + image \<Rightarrow> (image \<Rightarrow> int \<times> int) \<Rightarrow> image" where
  "overlay_value canvas scaled pos =
     (case scaled of
        Inl e \<Rightarrow> canvas
      | Inr t \<Rightarrow> paste canvas (apply_half_opacity t) (pos t) (apply_half_opacity t))"

definition base_canvas :: "image \<Rightarrow> image" where
  "base_canvas im =
     paste (new_image (width im, height im + footer_height_of (height im)) white) im (0, 0) im"

definition composed_overlays :: "resampler \<Rightarrow> image \<Rightarrow> image option \<Rightarrow> image option \<Rightarrow> image" where
  "composed_overlays L im logo qr =
     (let side_padding = side_padding_of (width im);
          c1 = (case logo of
                  None \<Rightarrow> base_canvas im
                | Some lg \<Rightarrow> overlay_value (base_canvas im) (thumbnail L lg (logo_box (width im)))
                              (\<lambda>t. (side_padding, side_padding)))
      in case qr of
           None \<Rightarrow> c1
         | Some q \<Rightarrow> overlay_value c1 (thumbnail L q qr_box)
                       (\<lambda>t. (width im - width t - side_padding, side_padding)))"

definition refs_below :: "ref option \<Rightarrow> store \<Rightarrow> bool" where
  "refs_below r s = (case r of None \<Rightarrow> True | Some x \<Rightarrow> x < top s)"

text \<open>The boxes the overlays are pasted into, as predicates on canvas coordinates.\<close>

definition logo_region :: "resampler \<Rightarrow> image \<Rightarrow> image option \<Rightarrow> int \<Rightarrow> int \<Rightarrow> bool" where
  "logo_region L im logo x y =
     (case logo of
        None \<Rightarrow> False
      | Some lg \<Rightarrow>
          (case thumbnail L lg (logo_box (width im)) of
             Inl e \<Rightarrow> False
           | Inr t \<Rightarrow> in_box t (side_padding_of (width im), side_padding_of (width im)) x y))"

definition qr_region :: "resampler \<Rightarrow> image \<Rightarrow> image option \<Rightarrow> int \<Rightarrow> int \<Rightarrow> bool" where
  "qr_region L im qr x y =
     (case qr of
        None \<Rightarrow> False
      | Some q \<Rightarrow>
          (case thumbnail L q qr_box of
             Inl e \<Rightarrow> False
           | Inr t \<Rightarrow>
               in_box t (width im - width t - side_padding_of (width im), side_padding_of (width im)) x y))"

definition composed_raster ::
  "resampler \<Rightarrow> 'f typesetter \<Rightarrow> image \<Rightarrow> image option \<Rightarrow> image option \<Rightarrow> string \<Rightarrow> string
     \<Rightarrow> py_exception + image" where
  "composed_raster L T im logo qr name_line code_line =
     (let c = composed_overlays L im logo qr;
          branding_lines = branding_lines_of name_line code_line;
          footer_height = footer_height_of (height im)
      in if branding_lines \<noteq> []
         then draw_footer_text T process_preset c branding_lines
                (0, height im, width im, height im + footer_height)
                (max (py_int (of_int footer_height * base_fraction process_preset))
                   (base_floor process_preset))
         else Inr c)"


text \<open>The footer height in the words of the specification: 15 percent of the height, rounded.\<close>

definition spec_footer_height :: "int \<Rightarrow> int" where
  "spec_footer_height H = max (round (15 / 100 * rat_of_int H)) 120"

section \<open>Observations on a run\<close>

subsection \<open>The temporary files of \<open>upload\<close>\<close>

text \<open>
  The two files \<open>upload\<close> keeps in the upload folder for the length of a request, and the
  event lists that write and remove nothing else and make no network call.
\<close>

definition temp_paths :: "('b, 'f) env \<Rightarrow> string list" where
  "temp_paths E =
     [path_join (UPLOAD_FOLDER E) ''temp_logo.png'', path_join (UPLOAD_FOLDER E) ''generated_qr.png'']"

definition touches_only :: "string list \<Rightarrow> 'b event list \<Rightarrow> bool" where
  "touches_only paths evs =
     list_all (\<lambda>ev. case ev of
                      File_write p c \<Rightarrow> p \<in> set paths
                    | File_remove p \<Rightarrow> p \<in> set paths
                    | Http_get u \<Rightarrow> False
                    | Http_put u c \<Rightarrow> False) evs"

text \<open>
  The request has no photo with a file name: the condition under which \<open>upload\<close> answers
  \<open>No photos uploaded\<close>.
\<close>

definition no_photo_named :: "'b upload_request \<Rightarrow> bool" where
  "no_photo_named req =
     (case form_photos req of None \<Rightarrow> True | Some ps \<Rightarrow> \<not> list_ex (\<lambda>f. upload_name f \<noteq> []) ps)"

text \<open>
  A step from world \<open>w\<close> to world \<open>w'\<close> that leaves every image object alone, adds events on the
  temporary files only, and changes no other file.
\<close>

definition temp_only :: "('b, 'f) env \<Rightarrow> 'b world \<Rightarrow> 'b world \<Rightarrow> bool" where
  "temp_only E w w' =
     (images w' = images w
      \<and> (\<exists>evs. trace w' = trace w @ evs \<and> touches_only (temp_paths E) evs)
      \<and> (\<forall>p. p \<notin> set (temp_paths E) \<longrightarrow> map_of (files w') p = map_of (files w) p))"

subsection \<open>The outcome of every photo\<close>

text \<open>
  Each handler keeps the successful entries only.  The functions below run the same loop bodies
  and record what each photo gave, an exception or an entry, so that the entries a handler
  returns can be compared with the photos it was given.
\<close>

fun collected :: "('e + 'a) list \<Rightarrow> 'a list" where
  "collected [] = []"
| "collected (Inl e # rest) = collected rest"
| "collected (Inr entry # rest) = entry # collected rest"

definition succeeded :: "'e + 'a \<Rightarrow> bool" where
  "succeeded r = (case r of Inl e \<Rightarrow> False | Inr entry \<Rightarrow> True)"

fun process_outcomes ::
  "('b, 'f) env \<Rightarrow> ref option \<Rightarrow> ref option \<Rightarrow> string \<Rightarrow> string \<Rightarrow> string list
     \<Rightarrow> 'b world \<Rightarrow> (nat \<times> string) list \<Rightarrow> (py_exception + processed) list" where
  "process_outcomes E logo_img qr_img name_line code_line names w [] = []"
| "process_outcomes E logo_img qr_img name_line code_line names w ((i, photo_url) # rest) =
     (case process_photo E w logo_img qr_img name_line code_line names i photo_url of
        (r, w') \<Rightarrow> r # process_outcomes E logo_img qr_img name_line code_line names w' rest)"

fun upload_outcomes ::
  "('b, 'f) env \<Rightarrow> string option \<Rightarrow> string option \<Rightarrow> string \<Rightarrow> string \<Rightarrow> string list
     \<Rightarrow> 'b world \<Rightarrow> (nat \<times> 'b file_storage) list \<Rightarrow> (py_exception + string \<times> string) list" where
  "upload_outcomes E logo qr_code name_line code_line names w [] = []"
| "upload_outcomes E logo qr_code name_line code_line names w ((i, photo) # rest) =
     (case upload_photo E w logo qr_code name_line code_line names i photo of
        (r, w') \<Rightarrow> r # upload_outcomes E logo qr_code name_line code_line names w' rest)"

definition process_batch_outcomes ::
  "('b, 'f) env \<Rightarrow> 'b world \<Rightarrow> request \<Rightarrow> (py_exception + processed) list" where
  "process_batch_outcomes E w d =
     (case load_logo E w (logo_url d) of (logo_img, w1) \<Rightarrow>
      case make_qr E w1 (qr_url d) of (qr_img, w2) \<Rightarrow>
        process_outcomes E logo_img qr_img (py_strip (practice_name d)) (py_strip (plus_code d))
          (file_names d) w2 (enumerate 0 (photo_urls d)))"

text \<open>
  The photos \<open>upload\<close> keeps after its filter on file names, and the names it pairs them with.
\<close>

definition valid_photos_of :: "'b upload_request \<Rightarrow> 'b file_storage list" where
  "valid_photos_of req =
     filter (\<lambda>photo. upload_name photo \<noteq> [] \<and> allowed_file (upload_name photo))
       (case form_photos req of None \<Rightarrow> [] | Some ps \<Rightarrow> ps)"

definition upload_names_of :: "'b upload_request \<Rightarrow> string list" where
  "upload_names_of req =
     (if form_file_names req = [] \<or> length (form_file_names req) \<noteq> length (valid_photos_of req)
      then map (\<lambda>photo. fst (splitext (upload_name photo))) (valid_photos_of req)
      else form_file_names req)"

subsection \<open>One photo of \<open>process_photos\<close> as a value\<close>

text \<open>
  What \<open>process_photo\<close> answers and which requests it makes, as a function of the overlay
  rasters instead of the store: download, decode, compose, flatten to RGB, encode as JPEG at
  quality 95, and put under the derived name.
\<close>

definition photo_outcome ::
  "('b, 'f) env \<Rightarrow> image option \<Rightarrow> image option \<Rightarrow> string \<Rightarrow> string \<Rightarrow> string list \<Rightarrow> nat \<Rightarrow> string
     \<Rightarrow> (py_exception + processed) \<times> 'b event list" where
  "photo_outcome E logo qr name_line code_line names i photo_url =
     (case requests_get E photo_url of
        Inl e \<Rightarrow> (Inl e, [Http_get photo_url])
      | Inr (status_code, content) \<Rightarrow>
          if status_code \<noteq> 200
          then (Inl (Exception ''Failed to download from URL''), [Http_get photo_url])
          else
     (case decode_photo E content of
        Inl e \<Rightarrow> (Inl e, [Http_get photo_url])
      | Inr photo \<Rightarrow>
     (case composed_raster (lanczos E) (typeset E) photo logo qr name_line code_line of
        Inl e \<Rightarrow> (Inl e, [Http_get photo_url])
      | Inr canvas \<Rightarrow>
     (case save_jpeg E (convert_RGB canvas) 95 of
        Inl e \<Rightarrow> (Inl e, [Http_get photo_url])
      | Inr encoded \<Rightarrow>
          if blob_token E = []
          then (Inl (Exception ''BLOB_READ_WRITE_TOKEN not configured''), [Http_get photo_url])
          else
            let output_name = output_name_of E names i;
                put_url = ''https://blob.vercel-storage.com/'' @ output_name;
                events = [Http_get photo_url, Http_put put_url encoded]
            in case requests_put E put_url encoded ''image/jpeg'' of
                 Inl e \<Rightarrow> (Inl e, events)
               | Inr (status_code, result_url) \<Rightarrow>
                   if status_code = 200
                   then (Inr \<lparr>url = result_url, filename = output_name\<rparr>, events)
                   else (Inl (Exception ''Failed to upload to Blob''), events)))))"

text \<open>
  The entries and the events of a whole batch, photo by photo.
\<close>

definition batch_results ::
  "('b, 'f) env \<Rightarrow> image option \<Rightarrow> image option \<Rightarrow> string \<Rightarrow> string \<Rightarrow> string list
     \<Rightarrow> (nat \<times> string) list \<Rightarrow> processed list" where
  "batch_results E logo qr name_line code_line names photos =
     collected (map (\<lambda>(i, photo_url). fst (photo_outcome E logo qr name_line code_line names i photo_url))
                  photos)"

definition batch_events ::
  "('b, 'f) env \<Rightarrow> image option \<Rightarrow> image option \<Rightarrow> string \<Rightarrow> string \<Rightarrow> string list
     \<Rightarrow> (nat \<times> string) list \<Rightarrow> 'b event list" where
  "batch_events E logo qr name_line code_line names photos =
     concat (map (\<lambda>(i, photo_url). snd (photo_outcome E logo qr name_line code_line names i photo_url))
               photos)"

subsection \<open>File names without a separator\<close>

text \<open>
  \<open>secure_filename\<close> of the web framework replaces path separators; this is the one fact about
  it that the naming loop of \<open>upload\<close> relies on.
\<close>

definition safe_names :: "('b, 'f) env \<Rightarrow> bool" where
  "safe_names E = (\<forall>s. CHR ''/'' \<notin> set (secure_filename E s))"

section \<open>Concrete inputs\<close>

text \<open>
  A store with a 1000 by 800 photo at reference 0 and an 800 by 200 logo at reference 1, a
  resampling filter that paints every pixel black and lets the ceiling win every tie, and a
  typesetter that draws nothing.
\<close>

definition demo_typesetter :: "unit typesetter" where
  "demo_typesetter =
     \<lparr>load_font = (\<lambda>n. ()), textbbox = (\<lambda>t f. (0, 0, 10, 10)),
      draw_text = (\<lambda>im pos t f. Inr (getpixel im))\<rparr>"

definition demo_resampler :: resampler where
  "demo_resampler =
     \<lparr>resample = (\<lambda>im sz x y. (0, 0, 0, 255)), ceiling_on_tie = (\<lambda>sz box. True)\<rparr>"

definition demo_store :: store where
  "demo_store =
     \<lparr>obj = (\<lambda>r. if r = 0 then new_image (1000, 800) (10, 20, 30, 255)
                  else new_image (800, 200) (0, 0, 0, 255)),
      top = 2\<rparr>"

text \<open>
  Collaborators that answer every request with status 200, fail to decode the bytes
  \<open>corrupt\<close> and decode anything else to a 1000 by 800 photo, and leave file names as they
  are; an empty world; and a world holding the store above.
\<close>

definition demo_env :: "(string, unit) env" where
  "demo_env =
     \<lparr>vercel = False,
      requests_get = (\<lambda>u. Inr (200, u)),
      requests_put = (\<lambda>u content content_type. Inr (200, u)),
      blob_token = ''token'',
      decode_photo = (\<lambda>b. if b = ''corrupt'' then Inl (Exception ''cannot identify image file'')
                           else Inr (new_image (1000, 800) (10, 20, 30, 255))),
      decode_overlay = (\<lambda>b. Inr (new_image (800, 200) (0, 0, 0, 255))),
      qr_make_image = (\<lambda>u. Inr (new_image (410, 410) (0, 0, 0, 255))),
      lanczos = demo_resampler,
      typeset = demo_typesetter,
      save_jpeg = (\<lambda>im quality. Inr ''jpeg''),
      save_png = (\<lambda>im. Inr ''png''),
      secure_filename = (\<lambda>s. s)\<rparr>"

definition demo_world :: "string world" where
  "demo_world =
     \<lparr>images = \<lparr>obj = (\<lambda>r. new_image (1, 1) white), top = 0\<rparr>, files = [], trace = []\<rparr>"

definition logo_world :: "string world" where
  "logo_world = \<lparr>images = demo_store, files = [], trace = []\<rparr>"

text \<open>
  A store with two photos of different widths, 1000 at reference 0 and 2000 at reference 2,
  the logo at reference 1 and a canvas at reference 3.
\<close>

definition two_photo_store :: store where
  "two_photo_store =
     \<lparr>obj = (\<lambda>r. if r = 0 then new_image (1000, 800) (10, 20, 30, 255)
                  else if r = 1 then new_image (800, 200) (0, 0, 0, 255)
                  else if r = 2 then new_image (2000, 800) (10, 20, 30, 255)
                  else new_image (2000, 920) white),
      top = 4\<rparr>"

text \<open>
  Requests to \<open>process_photos\<close>: one with no photo, one whose second photo is corrupt, and one
  that names both of its photos \<open>x.jpg\<close>.
\<close>

definition empty_request :: request where
  "empty_request =
     \<lparr>photo_urls = [], logo_url = Some ''https://blob/logo.png'', qr_url = None,
      practice_name = ''Acme Dental'', plus_code = ''PLUS-4W9'', file_names = []\<rparr>"

definition three_photo_request :: request where
  "three_photo_request =
     \<lparr>photo_urls = [''a'', ''corrupt'', ''b''], logo_url = None, qr_url = None,
      practice_name = '''', plus_code = '''', file_names = []\<rparr>"

definition same_name_request :: request where
  "same_name_request =
     \<lparr>photo_urls = [''a'', ''b''], logo_url = None, qr_url = None,
      practice_name = '''', plus_code = '''', file_names = [''x.jpg'', ''x.jpg'']\<rparr>"

text \<open>
  Requests to \<open>upload\<close>: one with a logo and no photo, one whose second photo is corrupt, and
  a single uploaded photo.
\<close>

definition logo_only_request :: "string upload_request" where
  "logo_only_request =
     \<lparr>form_logo = Some \<lparr>upload_name = ''logo.png'', upload_bytes = ''logo''\<rparr>,
      form_qr_url = '''', form_practice_name = '''', form_plus_code = '''',
      form_photos = None, form_file_names = []\<rparr>"

definition three_upload_request :: "string upload_request" where
  "three_upload_request =
     \<lparr>form_logo = None, form_qr_url = '''', form_practice_name = '''', form_plus_code = '''',
      form_photos = Some [\<lparr>upload_name = ''a.jpg'', upload_bytes = ''good''\<rparr>,
                          \<lparr>upload_name = ''b.jpg'', upload_bytes = ''corrupt''\<rparr>,
                          \<lparr>upload_name = ''c.png'', upload_bytes = ''good''\<rparr>],
      form_file_names = []\<rparr>"


text \<open>
  A QR encoder that accepts the payload \<open>https://maps.google.com/maps\<close> and nothing else, an
  uploaded photo whose extension is in upper case, and a photo whose pixels are half
  transparent.
\<close>

definition maps_only_env :: "(string, unit) env" where
  "maps_only_env =
     demo_env\<lparr>qr_make_image :=
       (\<lambda>u. if u = ''https://maps.google.com/maps'' then Inr (new_image (410, 410) (0, 0, 0, 255))
            else Inl (Exception ''unexpected payload''))\<rparr>"



section \<open>Properties\<close>

lemma py_int_nonneg_frac:
  assumes "0 \<le> n" and "0 \<le> a" and "0 < b"
  shows "py_int (of_int n * (of_int a / of_int b)) = (n * a) div b"
proof -
  have nn: "(0::rat) \<le> of_int n * (of_int a / of_int b)"
    using assms by simp
  have "\<lfloor>(of_int n * (of_int a / of_int b)) :: rat\<rfloor> = \<lfloor>(of_int (n * a) / of_int b) :: rat\<rfloor>"
    by simp
  also have "\<dots> = (n * a) div b"
    by (rule floor_divide_of_int_eq)
  finally show ?thesis
    using nn by (simp add: py_int_def)
qed

lemma uint_half_opacity: "uint (half_opacity p) = uint p div 2"
proof -
  have "py_int (of_int (uint p) * (of_int 1 / of_int 2)) = (uint p * 1) div 2"
    by (rule py_int_nonneg_frac) simp_all
  then have e: "half_opacity p = word_of_int (uint p div 2)"
    by (simp add: half_opacity_def)
  have "uint p < 256"
    using uint_bounded [of p] by simp
  then have "uint p div 2 < 2 ^ 8" and "0 \<le> uint p div 2"
    by simp_all
  then show ?thesis
    unfolding e by (simp add: uint_word_of_int take_bit_int_eq_self)
qed

lemma startswith_append: "startswith (n @ r) n"
  by (induction n) simp_all

lemma startswith_decomp: "startswith h n \<Longrightarrow> \<exists>r. h = n @ r"
  by (induction h n rule: startswith.induct) auto

lemma str_contains_iff: "str_contains h n \<longleftrightarrow> (\<exists>l r. h = l @ n @ r)"
proof (induction h)
  case Nil
  then show ?case by auto
next
  case (Cons c cs)
  show ?case
  proof
    assume "str_contains (c # cs) n"
    then consider "startswith (c # cs) n" | "str_contains cs n" by auto
    then show "\<exists>l r. c # cs = l @ n @ r"
    proof cases
      case 1
      then obtain r where "c # cs = n @ r" using startswith_decomp by blast
      then have "c # cs = [] @ n @ r" by simp
      then show ?thesis by blast
    next
      case 2
      then obtain l r where "cs = l @ n @ r" using Cons.IH by blast
      then have "c # cs = (c # l) @ n @ r" by simp
      then show ?thesis by blast
    qed
  next
    assume "\<exists>l r. c # cs = l @ n @ r"
    then obtain l r where e: "c # cs = l @ n @ r" by blast
    show "str_contains (c # cs) n"
    proof (cases l)
      case Nil
      then have "startswith (c # cs) n" using e startswith_append [of n r] by simp
      then show ?thesis by simp
    next
      case (Cons d ds)
      then have "cs = ds @ n @ r" using e by simp
      then have "str_contains cs n" using Cons.IH by blast
      then show ?thesis by simp
    qed
  qed
qed


lemma unat_half_opacity: "unat (half_opacity p) = unat p div 2"
proof -
  have "int (unat (half_opacity p)) = int (unat p div 2)"
    using uint_half_opacity [of p] by (simp add: zdiv_int)
  then show ?thesis by linarith
qed

lemma half_opacity_255: "half_opacity 255 = 127"
proof -
  have "unat (half_opacity 255) = unat (127 :: 8 word)"
    by (simp add: unat_half_opacity)
  then show ?thesis by (rule word_unat_eq_iff [THEN iffD2])
qed

lemma takeWhile_split_at: "c \<in> set u \<Longrightarrow> \<exists>q. u = takeWhile (\<lambda>d. d \<noteq> c) u @ c # q"
proof -
  assume "c \<in> set u"
  then have "dropWhile (\<lambda>d. d \<noteq> c) u \<noteq> []" by simp
  then obtain q where q: "dropWhile (\<lambda>d. d \<noteq> c) u = hd (dropWhile (\<lambda>d. d \<noteq> c) u) # q"
    by (cases "dropWhile (\<lambda>d. d \<noteq> c) u") auto
  have "hd (dropWhile (\<lambda>d. d \<noteq> c) u) = c"
    using hd_dropWhile [of "\<lambda>d. d \<noteq> c" u] \<open>dropWhile (\<lambda>d. d \<noteq> c) u \<noteq> []\<close> by auto
  then have "u = takeWhile (\<lambda>d. d \<noteq> c) u @ c # q"
    using q takeWhile_dropWhile_id [of "\<lambda>d. d \<noteq> c" u] by simp
  then show ?thesis by blast
qed

lemma takeWhile_no_sep: "c \<notin> set (takeWhile (\<lambda>d. d \<noteq> c) u)"
  using set_takeWhileD by fastforce

lemma div255_exact: "n \<le> 255 \<Longrightarrow> div255 (n * 255) = n"
  unfolding div255_def Let_def by arith

lemma unat_le_255: "unat (a :: 8 word) \<le> 255"
  using unsigned_less [of a, where 'a = nat] by simp

lemma blend_transparent: "blend 0 a b = a"
proof -
  have "div255 (unat a * 255) = unat a" using unat_le_255 by (rule div255_exact)
  then show ?thesis by (simp add: blend_def)
qed

lemma blend_opaque: "blend 255 a b = b"
proof -
  have "div255 (unat b * 255) = unat b" using unat_le_255 by (rule div255_exact)
  then show ?thesis by (simp add: blend_def)
qed

lemma blend_pixel_transparent: "blend_pixel 0 p q = p"
  by (cases p; cases q) (simp add: blend_pixel_def blend_transparent)

lemma blend_pixel_opaque: "blend_pixel 255 p q = q"
  by (cases p; cases q) (simp add: blend_pixel_def blend_opaque)

lemma footer_height_of_floor: "0 \<le> h \<Longrightarrow> footer_height_of h = max (h * 15 div 100) 120"
  using py_int_nonneg_frac [of h 15 100] by (simp add: footer_height_of_def)

lemma make_canvas_result:
  assumes "img < top s" and "make_canvas s img = (clean_img, footer_height, s')"
  shows "clean_img = Suc (top s)"
    and "footer_height = footer_height_of (height (obj s img))"
    and "top s' = Suc (Suc (top s))"
    and "obj s' clean_img =
           paste (new_image (width (obj s img), height (obj s img) + footer_height) white)
             (obj s img) (0, 0) (obj s img)"
    and "r < top s \<Longrightarrow> obj s' r = obj s r"
  using assms
  by (auto simp add: make_canvas_def Image_new_def alloc_def Image_paste_def Let_def)

lemma Image_thumbnail_Inr:
  assumes "Image_thumbnail L s r box = Inr s'"
  shows "top s' = top s" and "x \<noteq> r \<Longrightarrow> obj s' x = obj s x"
    and "thumbnail L (obj s r) box = Inr (obj s' r)"
  using assms by (auto simp add: Image_thumbnail_def split: sum.splits)

lemma Image_thumbnail_Inl:
  "Image_thumbnail L s r box = Inl e \<longleftrightarrow> thumbnail L (obj s r) box = Inl e"
  by (auto simp add: Image_thumbnail_def split: sum.splits)

lemma place_logo_top: "top (place_logo L s img clean_img sp logo) = top s"
  by (auto simp add: place_logo_def Image_thumbnail_def Image_putalpha_def Image_paste_def Let_def
      split: sum.splits)

lemma place_logo_frame:
  "r \<noteq> logo \<Longrightarrow> r \<noteq> clean_img \<Longrightarrow> obj (place_logo L s img clean_img sp logo) r = obj s r"
  by (auto simp add: place_logo_def Image_thumbnail_def Image_putalpha_def Image_paste_def Let_def
      split: sum.splits)

lemma place_logo_canvas:
  "clean_img \<noteq> logo \<Longrightarrow>
   obj (place_logo L s img clean_img sp logo) clean_img =
     (case thumbnail L (obj s logo) (logo_box (width (obj s img))) of
        Inl e \<Rightarrow> obj s clean_img
      | Inr t \<Rightarrow> paste (obj s clean_img) (apply_half_opacity t) (sp, sp) (apply_half_opacity t))"
  by (auto simp add: place_logo_def Image_thumbnail_def Image_putalpha_def Image_paste_def Let_def
      apply_half_opacity_def split: sum.splits)

lemma place_qr_top: "top (place_qr L s img clean_img sp qr) = top s"
  by (auto simp add: place_qr_def Image_thumbnail_def Image_putalpha_def Image_paste_def Let_def
      split: sum.splits)

lemma place_qr_frame:
  "r \<noteq> qr \<Longrightarrow> r \<noteq> clean_img \<Longrightarrow> obj (place_qr L s img clean_img sp qr) r = obj s r"
  by (auto simp add: place_qr_def Image_thumbnail_def Image_putalpha_def Image_paste_def Let_def
      split: sum.splits)

lemma putalpha_size: "width (putalpha im b) = width im" "height (putalpha im b) = height im"
  by (simp_all add: putalpha_def)

lemma apply_half_opacity_size:
  "width (apply_half_opacity im) = width im" "height (apply_half_opacity im) = height im"
  by (simp_all add: apply_half_opacity_def putalpha_def)

lemma place_qr_canvas:
  "clean_img \<noteq> qr \<Longrightarrow> img \<noteq> qr \<Longrightarrow>
   obj (place_qr L s img clean_img sp qr) clean_img =
     (case thumbnail L (obj s qr) qr_box of
        Inl e \<Rightarrow> obj s clean_img
      | Inr t \<Rightarrow> paste (obj s clean_img) (apply_half_opacity t)
                  (width (obj s img) - width t - sp, sp) (apply_half_opacity t))"
  by (auto simp add: place_qr_def Image_thumbnail_def Image_putalpha_def Image_paste_def Let_def
      apply_half_opacity_def putalpha_def split: sum.splits)

lemma overlay_logo_copy_top:
  "top (overlay_logo_copy L s img clean_img sp logo_img) = (case logo_img of None \<Rightarrow> top s | Some l \<Rightarrow> Suc (top s))"
  by (simp add: overlay_logo_copy_def Image_copy_def alloc_def place_logo_top split: option.splits)

lemma overlay_logo_copy_frame:
  "r < top s \<Longrightarrow> r \<noteq> clean_img \<Longrightarrow> obj (overlay_logo_copy L s img clean_img sp logo_img) r = obj s r"
  by (simp add: overlay_logo_copy_def Image_copy_def alloc_def place_logo_frame split: option.splits)

lemma overlay_logo_copy_canvas:
  "clean_img < top s \<Longrightarrow> img < top s \<Longrightarrow>
   obj (overlay_logo_copy L s img clean_img sp logo_img) clean_img =
     (case logo_img of
        None \<Rightarrow> obj s clean_img
      | Some l \<Rightarrow>
         (case thumbnail L (obj s l) (logo_box (width (obj s img))) of
            Inl e \<Rightarrow> obj s clean_img
          | Inr t \<Rightarrow> paste (obj s clean_img) (apply_half_opacity t) (sp, sp) (apply_half_opacity t)))"
  by (auto simp add: overlay_logo_copy_def Image_copy_def alloc_def place_logo_canvas
      split: option.splits sum.splits)

lemma overlay_qr_copy_top:
  "top (overlay_qr_copy L s img clean_img sp qr_img) = (case qr_img of None \<Rightarrow> top s | Some l \<Rightarrow> Suc (top s))"
  by (simp add: overlay_qr_copy_def Image_copy_def alloc_def place_qr_top split: option.splits)

lemma overlay_qr_copy_frame:
  "r < top s \<Longrightarrow> r \<noteq> clean_img \<Longrightarrow> obj (overlay_qr_copy L s img clean_img sp qr_img) r = obj s r"
  by (simp add: overlay_qr_copy_def Image_copy_def alloc_def place_qr_frame split: option.splits)

lemma overlay_qr_copy_canvas:
  "clean_img < top s \<Longrightarrow> img < top s \<Longrightarrow>
   obj (overlay_qr_copy L s img clean_img sp qr_img) clean_img =
     (case qr_img of
        None \<Rightarrow> obj s clean_img
      | Some q \<Rightarrow>
         (case thumbnail L (obj s q) qr_box of
            Inl e \<Rightarrow> obj s clean_img
          | Inr t \<Rightarrow> paste (obj s clean_img) (apply_half_opacity t)
                      (width (obj s img) - width t - sp, sp) (apply_half_opacity t)))"
  by (auto simp add: overlay_qr_copy_def Image_copy_def alloc_def place_qr_canvas
      split: option.splits sum.splits)

lemma caption_frame:
  "caption T P s img clean_img fh fy pn pc = Inr s' \<Longrightarrow>
     top s' = top s \<and> (\<forall>r. r \<noteq> clean_img \<longrightarrow> obj s' r = obj s r)"
  by (auto simp add: caption_def Let_def split: if_splits sum.splits)

lemma compose_overlays_value:
  fixes L :: resampler
  assumes img: "img < top s" and lg: "refs_below logo_img s" and q: "refs_below qr_img s"
    and mc: "make_canvas s img = (clean_img, footer_height, s1)"
  defines "sp \<equiv> side_padding_of (width (obj s1 img))"
  defines "s3 \<equiv> overlay_qr_copy L (overlay_logo_copy L s1 img clean_img sp logo_img) img clean_img sp qr_img"
  shows "obj s3 clean_img = composed_overlays L (obj s img) (map_option (obj s) logo_img) (map_option (obj s) qr_img)"
    and "r < top s \<Longrightarrow> obj s3 r = obj s r"
    and "top s \<le> top s3"
proof -
  note m = make_canvas_result [OF img mc]
  have c: "clean_img < top s1" "img < top s1" "img \<noteq> clean_img" using m(1,3) img by simp_all
  have im: "obj s1 img = obj s img" using m(5) img by simp
  let ?s2 = "overlay_logo_copy L s1 img clean_img sp logo_img"
  have t2: "top s1 \<le> top ?s2" by (simp add: overlay_logo_copy_top split: option.splits)
  have c2: "clean_img < top ?s2" "img < top ?s2" using c t2 by simp_all
  have f2: "obj ?s2 r = obj s r" if "r < top s" for r
    using that m(1,3,5) overlay_logo_copy_frame [of r s1 clean_img L img sp logo_img] by simp
  have base: "obj s1 clean_img = base_canvas (obj s img)"
    using m(4) m(2) by (simp add: base_canvas_def)
  have v2: "obj ?s2 clean_img =
     (case logo_img of None \<Rightarrow> base_canvas (obj s img)
      | Some l \<Rightarrow> overlay_value (base_canvas (obj s img)) (thumbnail L (obj s l) (logo_box (width (obj s img))))
           (\<lambda>t. (sp, sp)))"
    using overlay_logo_copy_canvas [OF c(1,2), of L sp logo_img] lg m(5) base im
    by (auto simp add: overlay_value_def refs_below_def split: option.splits sum.splits)
  have im2: "obj ?s2 img = obj s img" using f2 img by simp
  have v3: "obj s3 clean_img =
     (case qr_img of None \<Rightarrow> obj ?s2 clean_img
      | Some l \<Rightarrow> overlay_value (obj ?s2 clean_img) (thumbnail L (obj s l) qr_box)
           (\<lambda>t. (width (obj s img) - width t - sp, sp)))"
    unfolding s3_def
    using overlay_qr_copy_canvas [OF c2, of L sp qr_img] q f2 im2
    by (auto simp add: overlay_value_def refs_below_def split: option.splits sum.splits)
  show "obj s3 clean_img = composed_overlays L (obj s img) (map_option (obj s) logo_img) (map_option (obj s) qr_img)"
    using v2 v3 im by (auto simp add: composed_overlays_def sp_def Let_def split: option.splits)
  show "obj s3 r = obj s r" if "r < top s" for r
  proof -
    have "r < top ?s2" "r \<noteq> clean_img" using that t2 m(1,3) by simp_all
    then have "obj s3 r = obj ?s2 r" unfolding s3_def by (rule overlay_qr_copy_frame)
    then show ?thesis using f2 that by simp
  qed
  show "top s \<le> top s3"
    using t2 m(3) unfolding s3_def by (simp add: overlay_qr_copy_top split: option.splits)
qed









text \<open>
  Claim C3, as amended.  The opacity adjustment of a logo or QR overlay keeps the size and the
  colour bytes of every pixel and replaces its alpha \<open>a\<close> by \<open>a div 2\<close>, half of it rounded
  down: the new alpha is at most 50 percent of the old one and less than one step below it,
  a fully opaque pixel (255) gets 127, and a pixel that was at most as opaque as another
  stays at most as opaque.
\<close>

theorem opacity_halves_alpha_rounding_down:
  "width (apply_half_opacity im) = width im \<and> height (apply_half_opacity im) = height im
   \<and> getpixel (apply_half_opacity im) x y
       = set_alpha (getpixel im x y) (half_opacity (alpha_of (getpixel im x y)))
   \<and> alpha_of (getpixel (apply_half_opacity im) x y) = half_opacity (alpha_of (getpixel im x y))
   \<and> unat (half_opacity a) = unat a div 2
   \<and> 2 * unat (half_opacity a) \<le> unat a \<and> unat a \<le> 2 * unat (half_opacity a) + 1
   \<and> half_opacity 255 = 127
   \<and> (unat a \<le> unat b \<longrightarrow> unat (half_opacity a) \<le> unat (half_opacity b))"
proof -
  have px: "getpixel (apply_half_opacity im) x y
       = set_alpha (getpixel im x y) (half_opacity (alpha_of (getpixel im x y)))"
    by (simp add: apply_half_opacity_def putalpha_def point_def split_alpha_def)
  have al: "alpha_of (set_alpha q v) = v" for q v
    by (cases q) (simp add: alpha_of_def set_alpha_def)
  have sz: "width (apply_half_opacity im) = width im \<and> height (apply_half_opacity im) = height im"
    by (simp add: apply_half_opacity_def putalpha_def)
  have mono: "unat a \<le> unat b \<longrightarrow> unat (half_opacity a) \<le> unat (half_opacity b)"
    by (simp add: unat_half_opacity div_le_mono)
  show ?thesis
    using px sz mono half_opacity_255 by (simp add: al unat_half_opacity)
qed

theorem opacity_halves_alpha_rounding_down_witness:
  "unat (64 :: 8 word) \<le> unat (200 :: 8 word)
   \<and> unat (half_opacity 64) = 32 \<and> unat (half_opacity 200) = 100
   \<and> unat (half_opacity 64) \<le> unat (half_opacity 200)"
  using opacity_halves_alpha_rounding_down [of "new_image (1, 1) white" 0 0 64 200]
    opacity_halves_alpha_rounding_down [of "new_image (1, 1) white" 0 0 200 64]
  by simp

text \<open>
  Claim C3 as stated fails: a fully opaque pixel gets alpha 127, which is not exactly 50
  percent of 255, and the halving is not lossless, since alphas 2 and 3 both become 1.
\<close>

theorem opacity_exact_half_counterexample:
  "rat_of_nat (unat (half_opacity 255)) \<noteq> (1 / 2) * rat_of_nat (unat (255 :: 8 word))
   \<and> half_opacity 2 = half_opacity 3"
proof -
  have "unat (half_opacity 2) = unat (half_opacity 3)"
    by (simp add: unat_half_opacity)
  then have "half_opacity 2 = half_opacity 3"
    by (rule word_unat_eq_iff [THEN iffD2])
  then show ?thesis
    by (simp add: half_opacity_255)
qed

lemma make_qr_encodes:
  assumes "u \<noteq> []"
  shows "qr_make_image E (clean_qr_url u) = Inr raster \<Longrightarrow>
           fst (make_qr E w (Some u)) = Some (top (images w))
           \<and> obj (images (snd (make_qr E w (Some u)))) (top (images w)) = raster"
    and "qr_make_image E (clean_qr_url u) = Inl e \<Longrightarrow> make_qr E w (Some u) = (None, w)"
  using assms by (simp_all add: make_qr_def alloc_def)

lemma qr_stage_encodes:
  assumes "py_strip form \<noteq> []"
    and "qr_make_image E (clean_qr_url (py_strip form)) = Inr raster"
    and "save_png E raster = Inr encoded"
  shows "qr_stage E w logo form
           = (Inr (Some (path_join (UPLOAD_FOLDER E) ''generated_qr.png'')),
              file_save w (path_join (UPLOAD_FOLDER E) ''generated_qr.png'') encoded)"
  using assms by (simp add: qr_stage_def Let_def)

text \<open>
  Claim C4.  A QR payload URL that contains one of the maps patterns (google.com/maps,
  maps.google.com, maps.app.goo.gl) and a question mark is cut at its first question mark
  before it is encoded: the encoded payload has no query string and the URL is that payload
  followed by the question mark and the rest.  The payload
  https://maps.google.com/maps?cid=123&extra=1 becomes https://maps.google.com/maps.  A URL
  that contains none of the patterns is encoded unchanged.  The cut URL is what both
  handlers hand to the QR encoder.  In \<open>process_photos\<close> the QR image object holds what the
  encoder returns for the URL up to the question mark, and there is no QR image when the
  encoder fails on it.  In \<open>upload\<close>, which strips white space from the form field first,
  \<open>generated_qr.png\<close> holds the PNG encoding of what the encoder returns for it.
\<close>

theorem maps_url_query_stripped:
  "(is_google_maps u \<and> CHR ''?'' \<in> set u \<longrightarrow>
      CHR ''?'' \<notin> set (clean_qr_url u) \<and> (\<exists>q. u = clean_qr_url u @ CHR ''?'' # q))
   \<and> (\<not> is_google_maps u \<longrightarrow> clean_qr_url u = u)
   \<and> clean_qr_url ''https://maps.google.com/maps?cid=123&extra=1'' = ''https://maps.google.com/maps''
   \<and> (is_google_maps u \<and> CHR ''?'' \<in> set u
        \<and> qr_make_image E (takeWhile (\<lambda>c. c \<noteq> CHR ''?'') u) = Inr raster \<longrightarrow>
          fst (make_qr E w (Some u)) = Some (top (images w))
          \<and> obj (images (snd (make_qr E w (Some u)))) (top (images w)) = raster)
   \<and> (is_google_maps u \<and> CHR ''?'' \<in> set u
        \<and> qr_make_image E (takeWhile (\<lambda>c. c \<noteq> CHR ''?'') u) = Inl e \<longrightarrow>
          make_qr E w (Some u) = (None, w))
   \<and> (\<not> is_google_maps u \<and> u \<noteq> [] \<and> qr_make_image E u = Inr raster \<longrightarrow>
          fst (make_qr E w (Some u)) = Some (top (images w))
          \<and> obj (images (snd (make_qr E w (Some u)))) (top (images w)) = raster)
   \<and> (is_google_maps (py_strip form) \<and> CHR ''?'' \<in> set (py_strip form)
        \<and> qr_make_image E (takeWhile (\<lambda>c. c \<noteq> CHR ''?'') (py_strip form)) = Inr raster
        \<and> save_png E raster = Inr encoded \<longrightarrow>
          qr_stage E wu logo form
            = (Inr (Some (path_join (UPLOAD_FOLDER E) ''generated_qr.png'')),
               file_save wu (path_join (UPLOAD_FOLDER E) ''generated_qr.png'') encoded))
   \<and> (\<not> is_google_maps (py_strip form) \<and> py_strip form \<noteq> []
        \<and> qr_make_image E (py_strip form) = Inr raster \<and> save_png E raster = Inr encoded \<longrightarrow>
          qr_stage E wu logo form
            = (Inr (Some (path_join (UPLOAD_FOLDER E) ''generated_qr.png'')),
               file_save wu (path_join (UPLOAD_FOLDER E) ''generated_qr.png'') encoded))"
proof -
  have ex: "clean_qr_url ''https://maps.google.com/maps?cid=123&extra=1'' = ''https://maps.google.com/maps''"
    by (simp add: clean_qr_url_def is_google_maps_def)
  have a: "(is_google_maps u \<and> CHR ''?'' \<in> set u \<longrightarrow>
      CHR ''?'' \<notin> set (clean_qr_url u) \<and> (\<exists>q. u = clean_qr_url u @ CHR ''?'' # q))
   \<and> (\<not> is_google_maps u \<longrightarrow> clean_qr_url u = u)"
    using takeWhile_split_at [of "CHR ''?''" u] takeWhile_no_sep [of "CHR ''?''" u]
    by (simp add: clean_qr_url_def)
  have ne: "CHR ''?'' \<in> set v \<Longrightarrow> v \<noteq> []" for v :: string by auto
  have c1: "is_google_maps v \<and> CHR ''?'' \<in> set v \<Longrightarrow> clean_qr_url v = takeWhile (\<lambda>c. c \<noteq> CHR ''?'') v"
    for v by (simp add: clean_qr_url_def)
  have c2: "\<not> is_google_maps v \<Longrightarrow> clean_qr_url v = v" for v by (simp add: clean_qr_url_def)
  have p1: "is_google_maps u \<and> CHR ''?'' \<in> set u
        \<and> qr_make_image E (takeWhile (\<lambda>c. c \<noteq> CHR ''?'') u) = Inr raster \<longrightarrow>
          fst (make_qr E w (Some u)) = Some (top (images w))
          \<and> obj (images (snd (make_qr E w (Some u)))) (top (images w)) = raster"
    using make_qr_encodes(1) [of u E raster w] c1 [of u] ne [of u] by auto
  have p2: "is_google_maps u \<and> CHR ''?'' \<in> set u
        \<and> qr_make_image E (takeWhile (\<lambda>c. c \<noteq> CHR ''?'') u) = Inl e \<longrightarrow>
          make_qr E w (Some u) = (None, w)"
    using make_qr_encodes(2) [of u E e w] c1 [of u] ne [of u] by auto
  have p3: "\<not> is_google_maps u \<and> u \<noteq> [] \<and> qr_make_image E u = Inr raster \<longrightarrow>
          fst (make_qr E w (Some u)) = Some (top (images w))
          \<and> obj (images (snd (make_qr E w (Some u)))) (top (images w)) = raster"
    using make_qr_encodes(1) [of u E raster w] c2 [of u] by auto
  have q1: "is_google_maps (py_strip form) \<and> CHR ''?'' \<in> set (py_strip form)
        \<and> qr_make_image E (takeWhile (\<lambda>c. c \<noteq> CHR ''?'') (py_strip form)) = Inr raster
        \<and> save_png E raster = Inr encoded \<longrightarrow>
          qr_stage E wu logo form
            = (Inr (Some (path_join (UPLOAD_FOLDER E) ''generated_qr.png'')),
               file_save wu (path_join (UPLOAD_FOLDER E) ''generated_qr.png'') encoded)"
    using qr_stage_encodes [of form E raster encoded wu logo] c1 [of "py_strip form"] ne [of "py_strip form"]
    by auto
  have q2: "\<not> is_google_maps (py_strip form) \<and> py_strip form \<noteq> []
        \<and> qr_make_image E (py_strip form) = Inr raster \<and> save_png E raster = Inr encoded \<longrightarrow>
          qr_stage E wu logo form
            = (Inr (Some (path_join (UPLOAD_FOLDER E) ''generated_qr.png'')),
               file_save wu (path_join (UPLOAD_FOLDER E) ''generated_qr.png'') encoded)"
    using qr_stage_encodes [of form E raster encoded wu logo] c2 [of "py_strip form"] by auto
  show ?thesis using a ex p1 p2 p3 q1 q2 by blast
qed



lemma logo_box_eq: "0 \<le> W \<Longrightarrow> logo_box W = (W * 3 div 10, 360)"
  using py_int_nonneg_frac [of W 3 10] by (simp add: logo_box_def target_element_height_def)


lemma paste_size: "width (paste d a b m) = width d" "height (paste d a b m) = height d"
  by (simp_all add: paste_def)

lemma draw_lines_size:
  "draw_lines T im cx sp cy ld = Inr im' \<Longrightarrow> width im' = width im \<and> height im' = height im"
proof (induction ld arbitrary: im cy)
  case Nil
  then show ?case by simp
next
  case (Cons d ld)
  obtain line font w h where d: "d = (line, font, w, h)" by (cases d)
  show ?case
  proof (cases "draw_text T im (cx - w div 2, cy) line font")
    case (Inl e)
    then show ?thesis using Cons.prems d by simp
  next
    case (Inr px)
    then have "draw_lines T (im\<lparr>getpixel := px\<rparr>) cx sp (cy + h + sp) ld = Inr im'"
      using Cons.prems d by simp
    then have "width im' = width (im\<lparr>getpixel := px\<rparr>) \<and> height im' = height (im\<lparr>getpixel := px\<rparr>)"
      by (rule Cons.IH)
    then show ?thesis by simp
  qed
qed

lemma draw_footer_text_size:
  "draw_footer_text T P im lines rect f = Inr im' \<Longrightarrow> width im' = width im \<and> height im' = height im"
  by (cases rect) (auto simp add: draw_footer_text_def Let_def dest: draw_lines_size split: if_splits)

lemma overlay_value_size:
  "width (overlay_value c t pos) = width c" "height (overlay_value c t pos) = height c"
  by (simp_all add: overlay_value_def paste_size split: sum.splits)

lemma base_canvas_size:
  "width (base_canvas im) = width im"
  "height (base_canvas im) = height im + footer_height_of (height im)"
  by (simp_all add: base_canvas_def paste_size new_image_def)

lemma composed_overlays_size:
  "width (composed_overlays L im logo qr) = width im"
  "height (composed_overlays L im logo qr) = height im + footer_height_of (height im)"
  by (simp_all add: composed_overlays_def Let_def overlay_value_size base_canvas_size
      split: option.splits)

lemma composed_raster_size:
  "composed_raster L T im logo qr pn pc = Inr c \<Longrightarrow>
     width c = width im \<and> height c = height im + footer_height_of (height im)"
  using draw_footer_text_size [of T process_preset "composed_overlays L im logo qr"]
  by (auto simp add: composed_raster_def Let_def composed_overlays_size split: if_splits)

lemma compose_refines:
  fixes L :: resampler
  assumes img: "img < top s" and lg: "refs_below logo_img s" and q: "refs_below qr_img s"
    and c: "compose L T s img logo_img qr_img pn pc = (res, s')"
  shows "case composed_raster L T (obj s img) (map_option (obj s) logo_img) (map_option (obj s) qr_img) pn pc of
           Inl e \<Rightarrow> res = Inl e
         | Inr im \<Rightarrow> res = Inr (Suc (top s)) \<and> obj s' (Suc (top s)) = im"
    and "r < top s \<Longrightarrow> obj s' r = obj s r"
    and "top s \<le> top s'"
proof -
  obtain clean_img footer_height s1 where mc: "make_canvas s img = (clean_img, footer_height, s1)"
    by (cases "make_canvas s img") auto
  note m = make_canvas_result [OF img mc]
  define sp where "sp = side_padding_of (width (obj s1 img))"
  define s3 where "s3 = overlay_qr_copy L (overlay_logo_copy L s1 img clean_img sp logo_img) img clean_img sp qr_img"
  note v = compose_overlays_value [OF img lg q mc, where L = L, folded sp_def, folded s3_def]
  have im1: "obj s1 img = obj s img" using m(5) img by simp
  have im3: "obj s3 img = obj s img" using v(2) img by simp
  have ne: "clean_img \<noteq> img" using m(1) img by simp
  have ce: "compose L T s img logo_img qr_img pn pc =
     (case caption T process_preset s3 img clean_img footer_height (height (obj s1 img)) pn pc of
        Inl e \<Rightarrow> (Inl e, s3) | Inr s4 \<Rightarrow> (Inr clean_img, s4))"
    unfolding s3_def sp_def by (simp add: compose_def mc Let_def)
  let ?V = "composed_raster L T (obj s img) (map_option (obj s) logo_img) (map_option (obj s) qr_img) pn pc"
  show "case ?V of Inl e \<Rightarrow> res = Inl e | Inr im \<Rightarrow> res = Inr (Suc (top s)) \<and> obj s' (Suc (top s)) = im"
    using c ce v(1) im1 im3 m(1,2)
    by (auto simp add: caption_def composed_raster_def Let_def split: sum.splits if_splits)
  show "obj s' r = obj s r" if "r < top s" for r
  proof (cases "caption T process_preset s3 img clean_img footer_height (height (obj s1 img)) pn pc")
    case (Inl e)
    then show ?thesis using c ce v(2) that by simp
  next
    case (Inr s4)
    then have "obj s4 r = obj s3 r" using caption_frame [OF Inr] that m(1) by simp
    then show ?thesis using c ce Inr v(2) that by simp
  qed
  show "top s \<le> top s'"
  proof (cases "caption T process_preset s3 img clean_img footer_height (height (obj s1 img)) pn pc")
    case (Inl e)
    then show ?thesis using c ce v(3) by simp
  next
    case (Inr s4)
    then show ?thesis using caption_frame [OF Inr] c ce v(3) by simp
  qed
qed

lemma base_canvas_footer_pixel:
  "0 \<le> height im \<Longrightarrow> height im \<le> y \<Longrightarrow> getpixel (base_canvas im) x y = white"
  by (simp add: base_canvas_def paste_def in_box_def new_image_def)

lemma base_canvas_photo_pixel:
  "0 \<le> x \<Longrightarrow> x < width im \<Longrightarrow> 0 \<le> y \<Longrightarrow> y < height im \<Longrightarrow>
     getpixel (base_canvas im) x y = blend_pixel (alpha_of (getpixel im x y)) white (getpixel im x y)"
proof -
  assume a: "0 \<le> x" "x < width im" "0 \<le> y" "y < height im"
  have "120 \<le> footer_height_of (height im)" by (simp add: footer_height_of_def)
  then have "y < height im + footer_height_of (height im)" using a by simp
  then show ?thesis using a by (simp add: base_canvas_def paste_def in_box_def new_image_def)
qed

text \<open>
  Claim C1, as amended.  For a source photo of width \<open>W\<close> and height \<open>H\<close>, a successful
  composition yields a canvas of size \<open>(W, H + footer_height)\<close> with
  \<open>footer_height = max(int(0.15 * H), 120)\<close>, the product truncated, not rounded.  The canvas
  the composer starts from is opaque white with the photo pasted at (0, 0) through its own
  alpha: every pixel of the footer band is white, a photo pixel is the blend of white and the
  source pixel by the source alpha, so a fully transparent source pixel comes out white and a
  fully opaque one unchanged.
\<close>

theorem canvas_is_photo_over_white_with_footer:
  fixes L :: resampler
  assumes "img < top s" and "refs_below logo_img s" and "refs_below qr_img s"
    and "0 \<le> height (obj s img)"
    and "compose L T s img logo_img qr_img name_line code_line = (Inr clean_img, s')"
  shows "width (obj s' clean_img) = width (obj s img)
     \<and> height (obj s' clean_img) = height (obj s img) + footer_height_of (height (obj s img))
     \<and> footer_height_of (height (obj s img)) = max (height (obj s img) * 15 div 100) 120
     \<and> (case make_canvas s img of
          (c, footer_height, s1) \<Rightarrow>
             footer_height = footer_height_of (height (obj s img)) \<and> obj s1 c = base_canvas (obj s img))
     \<and> (0 \<le> x \<and> x < width (obj s img) \<and> height (obj s img) \<le> y
          \<and> y < height (obj s img) + footer_height_of (height (obj s img))
          \<longrightarrow> getpixel (base_canvas (obj s img)) x y = white)
     \<and> (0 \<le> x \<and> x < width (obj s img) \<and> 0 \<le> y \<and> y < height (obj s img)
          \<longrightarrow> getpixel (base_canvas (obj s img)) x y
              = blend_pixel (alpha_of (getpixel (obj s img) x y)) white (getpixel (obj s img) x y))
     \<and> (alpha_of p = 0 \<longrightarrow> blend_pixel (alpha_of p) white p = white)
     \<and> (alpha_of p = 255 \<longrightarrow> blend_pixel (alpha_of p) white p = p)"
proof -
  let ?im = "obj s img"
  note r = compose_refines(1) [OF assms(1,2,3,5)]
  from r obtain c where c: "composed_raster L T ?im (map_option (obj s) logo_img)
      (map_option (obj s) qr_img) name_line code_line = Inr c" and e: "clean_img = Suc (top s)" "obj s' clean_img = c"
    by (auto split: sum.splits)
  have sz: "width (obj s' clean_img) = width ?im
     \<and> height (obj s' clean_img) = height ?im + footer_height_of (height ?im)"
    using composed_raster_size [OF c] e by simp
  have fh: "footer_height_of (height ?im) = max (height ?im * 15 div 100) 120"
    using assms(4) by (rule footer_height_of_floor)
  have mc: "case make_canvas s img of
          (c, footer_height, s1) \<Rightarrow>
             footer_height = footer_height_of (height ?im) \<and> obj s1 c = base_canvas ?im"
  proof -
    obtain c0 f0 s0 where m: "make_canvas s img = (c0, f0, s0)" by (cases "make_canvas s img") auto
    show ?thesis using make_canvas_result(2,4) [OF assms(1) m] m by (simp add: base_canvas_def)
  qed
  have p1: "0 \<le> x \<and> x < width ?im \<and> height ?im \<le> y
          \<and> y < height ?im + footer_height_of (height ?im)
          \<longrightarrow> getpixel (base_canvas ?im) x y = white"
    using base_canvas_footer_pixel [OF assms(4)] by simp
  have p2: "0 \<le> x \<and> x < width ?im \<and> 0 \<le> y \<and> y < height ?im
          \<longrightarrow> getpixel (base_canvas ?im) x y
              = blend_pixel (alpha_of (getpixel ?im x y)) white (getpixel ?im x y)"
    using base_canvas_photo_pixel by simp
  have p3: "alpha_of p = 0 \<longrightarrow> blend_pixel (alpha_of p) white p = white"
    by (simp add: blend_pixel_transparent)
  have p4: "alpha_of p = 255 \<longrightarrow> blend_pixel (alpha_of p) white p = p"
    by (simp add: blend_pixel_opaque)
  show ?thesis using sz fh mc p1 p2 p3 p4 by blast
qed

text \<open>
  Claim C1 as stated fails for a photo of height 806: 0.15 * 806 = 120.9 rounds to 121, and
  the code allocates a footer of 120 pixels.
\<close>

theorem footer_height_rounding_counterexample:
  "footer_height_of 806 = 120 \<and> spec_footer_height 806 = 121
   \<and> footer_height_of 806 \<noteq> spec_footer_height 806"
proof -
  have a: "footer_height_of 806 = 120"
    using footer_height_of_floor [of 806] by simp
  have "round (15 / 100 * rat_of_int 806) = (121::int)"
    unfolding round_def by (rule floor_unique) simp_all
  then have b: "spec_footer_height 806 = 121"
    by (simp add: spec_footer_height_def)
  show ?thesis using a b by simp
qed

lemma paste_outside: "\<not> in_box a b x y \<Longrightarrow> getpixel (paste d a b m) x y = getpixel d x y"
  by (simp add: paste_def)

lemma in_box_half_opacity: "in_box (apply_half_opacity t) b x y = in_box t b x y"
  by (simp add: in_box_def apply_half_opacity_size)

lemma composed_overlays_outside:
  assumes "\<not> logo_region L im logo x y" and "\<not> qr_region L im qr x y"
  shows "getpixel (composed_overlays L im logo qr) x y = getpixel (base_canvas im) x y"
  using assms
  by (auto simp add: composed_overlays_def logo_region_def qr_region_def overlay_value_def Let_def
      paste_outside in_box_half_opacity split: option.splits sum.splits)

text \<open>
  Claim C8.  With no caption lines (practice name and location code both empty) no text is
  rendered: the list of caption lines is empty, \<open>draw_footer_text\<close> returns the canvas as it
  is for an empty list, the composition succeeds with the canvas that holds only the photo
  and the overlays, and every pixel at or below the photo's height that lies outside the box
  of the logo and outside the box of the QR image is white.
\<close>

theorem no_caption_lines_footer_stays_white:
  fixes L :: resampler
  assumes "img < top s" and "refs_below logo_img s" and "refs_below qr_img s"
    and "0 \<le> height (obj s img)"
    and "compose L T s img logo_img qr_img [] [] = (res, s')"
  shows "branding_lines_of [] [] = []
     \<and> draw_footer_text T preset canvas [] footer_rect font_size_base = Inr canvas
     \<and> res = Inr (Suc (top s))
     \<and> obj s' (Suc (top s))
         = composed_overlays L (obj s img) (map_option (obj s) logo_img) (map_option (obj s) qr_img)
     \<and> (height (obj s img) \<le> y
          \<and> \<not> logo_region L (obj s img) (map_option (obj s) logo_img) x y
          \<and> \<not> qr_region L (obj s img) (map_option (obj s) qr_img) x y
          \<longrightarrow> getpixel (obj s' (Suc (top s))) x y = white)"
proof -
  have v: "composed_raster L T (obj s img) (map_option (obj s) logo_img) (map_option (obj s) qr_img) [] []
      = Inr (composed_overlays L (obj s img) (map_option (obj s) logo_img) (map_option (obj s) qr_img))"
    by (simp add: composed_raster_def branding_lines_of_def)
  have r: "res = Inr (Suc (top s)) \<and> obj s' (Suc (top s))
         = composed_overlays L (obj s img) (map_option (obj s) logo_img) (map_option (obj s) qr_img)"
    using compose_refines(1) [OF assms(1,2,3,5)] v by simp
  have px: "height (obj s img) \<le> y
          \<and> \<not> logo_region L (obj s img) (map_option (obj s) logo_img) x y
          \<and> \<not> qr_region L (obj s img) (map_option (obj s) qr_img) x y
          \<longrightarrow> getpixel (obj s' (Suc (top s))) x y = white"
    using r composed_overlays_outside [of L "obj s img" "map_option (obj s) logo_img" x y "map_option (obj s) qr_img"]
      base_canvas_footer_pixel [OF assms(4), of y x]
    by simp
  show ?thesis
    using r px by (simp add: branding_lines_of_def draw_footer_text_def)
qed

lemma new_image_simps:
  "width (new_image sz c) = fst sz" "height (new_image sz c) = snd sz"
  "getpixel (new_image sz c) x y = c"
  by (simp_all add: new_image_def)

lemma demo_store_simps:
  "top demo_store = 2"
  "obj demo_store 0 = new_image (1000, 800) (10, 20, 30, 255)"
  "obj demo_store (Suc 0) = new_image (800, 200) (0, 0, 0, 255)"
  by (simp_all add: demo_store_def)

lemma demo_logo_thumbnail:
  "thumbnail demo_resampler (new_image (800, 200) (0, 0, 0, 255)) (logo_box 1000)
     = Inr \<lparr>width = 300, height = 75, getpixel = (\<lambda>x y. (0, 0, 0, 255))\<rparr>"
  by (simp add: logo_box_eq new_image_def thumbnail_def thumbnail_size_def round_aspect_def Let_def
      demo_resampler_def)


theorem no_caption_lines_footer_stays_white_witness:
  "0 < top demo_store \<and> refs_below (Some 1) demo_store \<and> refs_below None demo_store
   \<and> 0 \<le> height (obj demo_store 0) \<and> height (obj demo_store 0) \<le> 850
   \<and> \<not> logo_region demo_resampler (obj demo_store 0) (map_option (obj demo_store) (Some 1)) 500 850
   \<and> \<not> qr_region demo_resampler (obj demo_store 0) (map_option (obj demo_store) None) 500 850
   \<and> fst (compose demo_resampler demo_typesetter demo_store 0 (Some 1) None [] []) = Inr 3
   \<and> getpixel (obj (snd (compose demo_resampler demo_typesetter demo_store 0 (Some 1) None [] [])) 3)
        500 850 = white"
proof -
  have h: "0 < top demo_store" "refs_below (Some 1) demo_store" "refs_below None demo_store"
    "0 \<le> height (obj demo_store 0)" "height (obj demo_store 0) \<le> 850"
    by (simp_all add: demo_store_simps refs_below_def new_image_simps)
  have sp: "side_padding_of 1000 = 20"
    using py_int_nonneg_frac [of 1000 2 100] by (simp add: side_padding_of_def)
  have l: "\<not> logo_region demo_resampler (obj demo_store 0) (map_option (obj demo_store) (Some 1)) 500 850"
    by (simp add: logo_region_def demo_store_simps new_image_simps demo_logo_thumbnail sp in_box_def)
  have q: "\<not> qr_region demo_resampler (obj demo_store 0) (map_option (obj demo_store) None) 500 850"
    by (simp add: qr_region_def)
  have c: "compose demo_resampler demo_typesetter demo_store 0 (Some 1) None [] []
      = (fst (compose demo_resampler demo_typesetter demo_store 0 (Some 1) None [] []),
         snd (compose demo_resampler demo_typesetter demo_store 0 (Some 1) None [] []))"
    by simp
  show ?thesis
    using h l q no_caption_lines_footer_stays_white [OF h(1,2,3,4) c, where y = 850 and x = 500
        and preset = process_preset and canvas = "new_image (1, 1) white"
        and footer_rect = "(0, 0, 0, 0)" and font_size_base = 24]
    by (auto simp add: demo_store_simps)
qed

theorem canvas_is_photo_over_white_with_footer_witness:
  "0 < top demo_store \<and> refs_below (Some 1) demo_store \<and> refs_below None demo_store
   \<and> 0 \<le> height (obj demo_store 0)
   \<and> compose demo_resampler demo_typesetter demo_store 0 (Some 1) None [] []
       = (Inr 3, snd (compose demo_resampler demo_typesetter demo_store 0 (Some 1) None [] []))
   \<and> width (obj (snd (compose demo_resampler demo_typesetter demo_store 0 (Some 1) None [] [])) 3) = 1000
   \<and> height (obj (snd (compose demo_resampler demo_typesetter demo_store 0 (Some 1) None [] [])) 3) = 920
   \<and> footer_height_of 800 = 120
   \<and> getpixel (base_canvas (obj demo_store 0)) 500 850 = white"
proof -
  have h: "0 < top demo_store" "refs_below (Some 1) demo_store" "refs_below None demo_store"
    "0 \<le> height (obj demo_store 0)"
    by (simp_all add: demo_store_simps refs_below_def new_image_simps)
  have r: "case composed_raster demo_resampler demo_typesetter (obj demo_store 0)
                  (map_option (obj demo_store) (Some 1)) (map_option (obj demo_store) None) [] [] of
             Inl e \<Rightarrow> fst (compose demo_resampler demo_typesetter demo_store 0 (Some 1) None [] []) = Inl e
           | Inr im \<Rightarrow> fst (compose demo_resampler demo_typesetter demo_store 0 (Some 1) None [] [])
               = Inr (Suc (top demo_store))
               \<and> obj (snd (compose demo_resampler demo_typesetter demo_store 0 (Some 1) None [] []))
                    (Suc (top demo_store)) = im"
    by (rule compose_refines(1) [OF h(1,2,3)]) simp
  have c: "compose demo_resampler demo_typesetter demo_store 0 (Some 1) None [] []
      = (Inr 3, snd (compose demo_resampler demo_typesetter demo_store 0 (Some 1) None [] []))"
    using r by (simp add: prod_eq_iff composed_raster_def branding_lines_of_def demo_store_simps)
  have f: "footer_height_of 800 = 120" using footer_height_of_floor [of 800] by simp
  show ?thesis
    using h c f canvas_is_photo_over_white_with_footer [OF h c, of 500 850 white]
    by (simp add: demo_store_simps new_image_simps)
qed


lemma map_of_fs_write: "map_of (fs_write fs p c) q = (if q = p then Some c else map_of fs q)"
  by (induction fs) (auto simp add: fs_write_def fs_remove_def)

lemma map_of_fs_remove: "map_of (fs_remove fs p) q = (if q = p then None else map_of fs q)"
  by (induction fs) (auto simp add: fs_remove_def)

lemma fs_exists_map_of: "fs_exists fs p \<longleftrightarrow> map_of fs p \<noteq> None"
  by (simp add: fs_exists_def map_of_eq_None_iff)

lemma temp_only_refl: "temp_only E w w"
  by (simp add: temp_only_def touches_only_def)

lemma temp_only_trans: "temp_only E w w1 \<Longrightarrow> temp_only E w1 w2 \<Longrightarrow> temp_only E w w2"
  by (auto simp add: temp_only_def touches_only_def)

lemma temp_only_save: "p \<in> set (temp_paths E) \<Longrightarrow> temp_only E w (file_save w p c)"
  by (auto simp add: temp_only_def touches_only_def file_save_def map_of_fs_write)

lemma temp_only_remove: "p \<in> set (temp_paths E) \<Longrightarrow> temp_only E w (os_remove w p)"
  by (auto simp add: temp_only_def touches_only_def os_remove_def map_of_fs_remove)

lemma logo_stage_temp:
  "logo_stage E w lf = (r, w1) \<Longrightarrow>
     temp_only E w w1 \<and> (\<forall>p. r = Inr (Some p) \<longrightarrow> p = path_join (UPLOAD_FOLDER E) ''temp_logo.png'')"
  by (auto simp add: logo_stage_def Let_def temp_only_refl temp_only_save temp_paths_def
      split: option.splits if_splits)

lemma qr_stage_temp:
  assumes "qr_stage E w logo u = (r, w1)"
    and "\<forall>p. logo = Some p \<longrightarrow> p = path_join (UPLOAD_FOLDER E) ''temp_logo.png''"
  shows "temp_only E w w1 \<and> (\<forall>p. r = Inr (Some p) \<longrightarrow> p = path_join (UPLOAD_FOLDER E) ''generated_qr.png'')"
  using assms
  by (auto simp add: qr_stage_def Let_def temp_only_refl temp_only_save temp_only_remove temp_paths_def
      split: option.splits if_splits sum.splits)

lemma remove_if_exists_temp:
  "\<forall>p. po = Some p \<longrightarrow> p \<in> set (temp_paths E) \<Longrightarrow> temp_only E w (remove_if_exists w po)"
  by (auto simp add: remove_if_exists_def temp_only_refl temp_only_remove split: option.splits)

lemma cleanup_temp:
  assumes "\<forall>p. logo = Some p \<longrightarrow> p \<in> set (temp_paths E)"
    and "\<forall>p. qr = Some p \<longrightarrow> p \<in> set (temp_paths E)"
  shows "temp_only E w (cleanup w logo qr)"
  unfolding cleanup_def
  using remove_if_exists_temp [OF assms(1)] remove_if_exists_temp [OF assms(2)]
  by (blast intro: temp_only_trans)

lemma remove_if_exists_files:
  "map_of (files (remove_if_exists w po)) p = (if po = Some p then None else map_of (files w) p)"
  by (auto simp add: remove_if_exists_def os_remove_def map_of_fs_remove fs_exists_map_of
      split: option.splits)

lemma cleanup_files:
  "map_of (files (cleanup w l q)) p = (if l = Some p \<or> q = Some p then None else map_of (files w) p)"
  by (simp add: cleanup_def remove_if_exists_files)

lemma logo_stage_files:
  "logo_stage E w lf = (r, w1) \<Longrightarrow>
     (\<forall>logo. r = Inr logo \<longrightarrow> (\<forall>p. map_of (files w1) p = map_of (files w) p \<or> logo = Some p))
     \<and> (\<forall>err. r = Inl err \<longrightarrow> files w1 = files w)"
  by (auto simp add: logo_stage_def Let_def file_save_def map_of_fs_write split: option.splits if_splits)

lemma qr_stage_files:
  "qr_stage E w1 logo u = (r, w2) \<Longrightarrow>
     (\<forall>qr. r = Inr qr \<longrightarrow> (\<forall>p. map_of (files w2) p = map_of (files w1) p \<or> qr = Some p))
     \<and> (\<forall>err. r = Inl err \<longrightarrow>
           (\<forall>p. map_of (files w2) p = (if logo = Some p then None else map_of (files w1) p)
                \<or> (logo = None \<and> map_of (files w2) p = map_of (files w1) p)))"
  by (auto simp add: qr_stage_def Let_def file_save_def os_remove_def map_of_fs_write map_of_fs_remove
      fs_exists_map_of split: option.splits if_splits sum.splits)

lemma upload_no_photos:
  assumes np: "no_photo_named req" and up: "upload E w req = (resp, w')"
  shows "(\<exists>m c. resp = Upload_error m c)"
    and "temp_only E w w'"
    and "map_of (files w') p = map_of (files w) p \<or> (p \<in> set (temp_paths E) \<and> map_of (files w') p = None)"
proof -
  obtain r1 w1 where l: "logo_stage E w (form_logo req) = (r1, w1)"
    by (cases "logo_stage E w (form_logo req)") auto
  note lt = logo_stage_temp [OF l] and lf = logo_stage_files [OF l]
  have all: "(\<exists>m c. resp = Upload_error m c) \<and> temp_only E w w'
     \<and> (map_of (files w') p = map_of (files w) p \<or> (p \<in> set (temp_paths E) \<and> map_of (files w') p = None))"
  proof (cases r1)
    case (Inl err)
    then have "resp = err" "w' = w1" using up l by (simp_all add: upload_def)
    moreover have "\<exists>m c. err = Upload_error m c" by (cases err) (use l Inl in \<open>auto simp add: logo_stage_def Let_def split: option.splits if_splits\<close>)
    ultimately show ?thesis using lt lf Inl by simp
  next
    case (Inr logo)
    have lp: "\<forall>p. logo = Some p \<longrightarrow> p = path_join (UPLOAD_FOLDER E) ''temp_logo.png''"
      using lt Inr by simp
    then have lpt: "\<forall>p. logo = Some p \<longrightarrow> p \<in> set (temp_paths E)" by (simp add: temp_paths_def)
    obtain r2 w2 where q: "qr_stage E w1 logo (form_qr_url req) = (r2, w2)"
      by (cases "qr_stage E w1 logo (form_qr_url req)") auto
    note qt = qr_stage_temp [OF q lp] and qf = qr_stage_files [OF q]
    have t2: "temp_only E w w2" using lt qt by (blast intro: temp_only_trans)
    show ?thesis
    proof (cases r2)
      case (Inl err)
      then have e: "resp = err" "w' = w2" using up l q Inr by (simp_all add: upload_def)
      have "\<exists>m c. err = Upload_error m c"
        by (cases err) (use q Inl in \<open>auto simp add: qr_stage_def Let_def split: option.splits if_splits sum.splits\<close>)
      moreover have "map_of (files w2) p = map_of (files w) p
          \<or> (p \<in> set (temp_paths E) \<and> map_of (files w2) p = None)"
        using qf Inl lf Inr lpt by (metis option.distinct(1))
      ultimately show ?thesis using e t2 by simp
    next
      case (Inr qr)
      have qpt: "\<forall>p. qr = Some p \<longrightarrow> p \<in> set (temp_paths E)"
        using qt Inr by (simp add: temp_paths_def)
      have e: "resp = Upload_error ''No photos uploaded'' 400" "w' = cleanup w2 logo qr"
        using up l q \<open>r1 = Inr logo\<close> Inr np
        by (auto simp add: upload_def no_photo_named_def Let_def split: option.splits)
      have t3: "temp_only E w w'"
        using t2 cleanup_temp [OF lpt qpt, of w2] e by (blast intro: temp_only_trans)
      have "map_of (files w') p = map_of (files w) p \<or> (p \<in> set (temp_paths E) \<and> map_of (files w') p = None)"
        using e cleanup_files [of w2 logo qr p] lf \<open>r1 = Inr logo\<close> qf Inr lpt qpt
        by (metis)
      then show ?thesis using e t3 by simp
    qed
  qed
  show "\<exists>m c. resp = Upload_error m c" using all by blast
  show "temp_only E w w'" using all by blast
  show "map_of (files w') p = map_of (files w) p \<or> (p \<in> set (temp_paths E) \<and> map_of (files w') p = None)"
    using all by blast
qed

lemma allowed_logo: "allowed_file ''logo.png''"
  by (simp add: allowed_file_def py_lower_def lower_char_def lower_char_def)

lemma demo_upload_logo_only:
  "upload demo_env demo_world logo_only_request =
     (Upload_error ''No photos uploaded'' 400,
      demo_world\<lparr>trace := [File_write ''uploads/temp_logo.png'' ''logo'', File_remove ''uploads/temp_logo.png'']\<rparr>)"
  by (simp add: upload_def logo_stage_def qr_stage_def logo_only_request_def allowed_logo Let_def
      py_strip_def cleanup_def remove_if_exists_def file_save_def os_remove_def fs_write_def
      fs_remove_def fs_exists_def path_join_def UPLOAD_FOLDER_def demo_env_def demo_world_def)

lemma collected_append: "collected (xs @ ys) = collected xs @ collected ys"
  by (induction xs rule: collected.induct) simp_all

lemma length_collected: "length (collected xs) = length (filter succeeded xs)"
  by (induction xs rule: collected.induct) (simp_all add: succeeded_def)

lemma length_process_outcomes:
  "length (process_outcomes E l q n c names w ius) = length ius"
  by (induction ius arbitrary: w) (auto split: prod.splits)

lemma length_upload_outcomes:
  "length (upload_outcomes E l q n c names w ius) = length ius"
  by (induction ius arbitrary: w) (auto split: prod.splits)

lemma process_loop_collects:
  "fst (process_loop E l q n c names w acc ius)
     = acc @ collected (process_outcomes E l q n c names w ius)"
proof (induction ius arbitrary: w acc)
  case Nil
  then show ?case by simp
next
  case (Cons iu ius)
  obtain i u where iu: "iu = (i, u)" by (cases iu)
  obtain r w' where p: "process_photo E w l q n c names i u = (r, w')"
    by (cases "process_photo E w l q n c names i u")
  show ?case using Cons.IH [of w'] iu p by (cases r) simp_all
qed

lemma upload_loop_collects:
  "fst (upload_loop E l q n c names w acc ius)
     = acc @ collected (upload_outcomes E l q n c names w ius)"
proof (induction ius arbitrary: w acc)
  case Nil
  then show ?case by simp
next
  case (Cons iu ius)
  obtain i u where iu: "iu = (i, u)" by (cases iu)
  obtain r w' where p: "upload_photo E w l q n c names i u = (r, w')"
    by (cases "upload_photo E w l q n c names i u")
  show ?case using Cons.IH [of w'] iu p by (cases r) simp_all
qed

lemma download_effects:
  "download_from_url E w u = (r, w') \<Longrightarrow> w' = w\<lparr>trace := trace w @ [Http_get u]\<rparr>"
  by (auto simp add: download_from_url_def Let_def split: sum.splits if_splits)

lemma upload_to_blob_effects:
  "upload_to_blob E w b n t = (r, w') \<Longrightarrow>
     images w' = images w \<and> files w' = files w
     \<and> trace w' = trace w @ (if blob_token E = [] then []
                               else [Http_put (''https://blob.vercel-storage.com/'' @ n) b])"
  by (auto simp add: upload_to_blob_def Let_def split: sum.splits if_splits)

lemma process_photo_effects:
  assumes "process_photo E w l q n c names i u = (r, w')"
  shows "files w' = files w" and "\<exists>evs. trace w' = trace w @ Http_get u # evs"
proof -
  obtain r1 w1 where d: "download_from_url E w u = (r1, w1)"
    by (cases "download_from_url E w u")
  have w1: "w1 = w\<lparr>trace := trace w @ [Http_get u]\<rparr>" using download_effects [OF d] .
  have "files w' = files w \<and> (\<exists>evs. trace w' = trace w @ Http_get u # evs)"
    using assms d
    by (auto simp add: process_photo_def Let_def w1 split: sum.splits prod.splits
        dest!: upload_to_blob_effects)
  then show "files w' = files w" and "\<exists>evs. trace w' = trace w @ Http_get u # evs" by blast+
qed

lemma process_loop_attempts_all:
  assumes "process_loop E l q n c names w acc ius = (res, w')"
  shows "\<exists>evs. trace w' = trace w @ evs \<and> (\<forall>iu \<in> set ius. Http_get (snd iu) \<in> set evs)"
  using assms
proof (induction ius arbitrary: w acc)
  case Nil
  then show ?case by simp
next
  case (Cons iu ius)
  obtain i u where iu: "iu = (i, u)" by (cases iu)
  obtain r w1 where p: "process_photo E w l q n c names i u = (r, w1)"
    by (cases "process_photo E w l q n c names i u")
  obtain evs1 where e1: "trace w1 = trace w @ Http_get u # evs1"
    using process_photo_effects(2) [OF p] by blast
  obtain acc' where "process_loop E l q n c names w1 acc' ius = (res, w')"
    using Cons.prems iu p by (cases r) auto
  then obtain evs2 where e2: "trace w' = trace w1 @ evs2" "\<forall>iu \<in> set ius. Http_get (snd iu) \<in> set evs2"
    using Cons.IH by blast
  have "trace w' = trace w @ (Http_get u # evs1 @ evs2)" using e1 e2 by simp
  moreover have "\<forall>x \<in> set (iu # ius). Http_get (snd x) \<in> set (Http_get u # evs1 @ evs2)"
    using e2(2) iu by auto
  ultimately show ?case by blast
qed

lemma upload_photo_trace:
  assumes "upload_photo E w l q n c names i photo = (r, w')"
  shows "\<exists>evs. trace w' = trace w
           @ File_write (path_join (UPLOAD_FOLDER E) (secure_filename E (upload_name photo)))
               (upload_bytes photo) # evs"
  using assms
  by (auto simp add: upload_photo_def Let_def file_save_def os_remove_def
      split: sum.splits prod.splits)

lemma upload_loop_attempts_all:
  assumes "upload_loop E l q n c names w acc ius = (res, w')"
  shows "\<exists>evs. trace w' = trace w @ evs
           \<and> (\<forall>ip \<in> set ius. File_write (path_join (UPLOAD_FOLDER E) (secure_filename E (upload_name (snd ip))))
                 (upload_bytes (snd ip)) \<in> set evs)"
  using assms
proof (induction ius arbitrary: w acc)
  case Nil
  then show ?case by simp
next
  case (Cons ip ius)
  obtain i p where ip: "ip = (i, p)" by (cases ip)
  let ?ev = "File_write (path_join (UPLOAD_FOLDER E) (secure_filename E (upload_name p))) (upload_bytes p)"
  obtain r w1 where u: "upload_photo E w l q n c names i p = (r, w1)"
    by (cases "upload_photo E w l q n c names i p")
  obtain evs1 where e1: "trace w1 = trace w @ ?ev # evs1"
    using upload_photo_trace [OF u] by blast
  obtain acc' where "upload_loop E l q n c names w1 acc' ius = (res, w')"
    using Cons.prems ip u by (cases r) auto
  then obtain evs2 where e2: "trace w' = trace w1 @ evs2"
      "\<forall>ip \<in> set ius. File_write (path_join (UPLOAD_FOLDER E) (secure_filename E (upload_name (snd ip))))
                 (upload_bytes (snd ip)) \<in> set evs2"
    using Cons.IH by blast
  have "trace w' = trace w @ (?ev # evs1 @ evs2)" using e1 e2 by simp
  moreover have "\<forall>x \<in> set (ip # ius). File_write (path_join (UPLOAD_FOLDER E) (secure_filename E (upload_name (snd x))))
                 (upload_bytes (snd x)) \<in> set (?ev # evs1 @ evs2)"
    using e2(2) ip by auto
  ultimately show ?case by blast
qed

lemma remove_if_exists_trace: "\<exists>evs. trace (remove_if_exists w po) = trace w @ evs"
  by (simp add: remove_if_exists_def os_remove_def split: option.splits)

lemma cleanup_trace: "\<exists>evs. trace (cleanup w l q) = trace w @ evs"
  unfolding cleanup_def
  using remove_if_exists_trace [of "remove_if_exists w l" q] remove_if_exists_trace [of w l]
  by auto

lemma set_enumerate_snd: "snd ` set (enumerate n xs) = set xs"
  by (induction xs arbitrary: n) (auto simp add: image_iff)

lemma process_photos_isolates_failures:
  assumes ne: "photo_urls d \<noteq> []"
  shows "length (process_batch_outcomes E w d) = length (photo_urls d)"
    and "fst (process_photos E w (Some d))
         = (if collected (process_batch_outcomes E w d) = []
            then Json_error ''Failed to process any photos'' 500
            else Json_success (collected (process_batch_outcomes E w d)))"
    and "u \<in> set (photo_urls d) \<Longrightarrow> Http_get u \<in> set (trace (snd (process_photos E w (Some d))))"
proof -
  obtain logo_img w1 where l: "load_logo E w (logo_url d) = (logo_img, w1)"
    by (cases "load_logo E w (logo_url d)")
  obtain qr_img w2 where q: "make_qr E w1 (qr_url d) = (qr_img, w2)"
    by (cases "make_qr E w1 (qr_url d)")
  let ?n = "py_strip (practice_name d)" and ?c = "py_strip (plus_code d)"
  let ?ius = "enumerate 0 (photo_urls d)"
  obtain res w3 where lp: "process_loop E logo_img qr_img ?n ?c (file_names d) w2 [] ?ius = (res, w3)"
    by (cases "process_loop E logo_img qr_img ?n ?c (file_names d) w2 [] ?ius")
  have o: "process_batch_outcomes E w d = process_outcomes E logo_img qr_img ?n ?c (file_names d) w2 ?ius"
    by (simp add: process_batch_outcomes_def l q)
  have res: "res = collected (process_batch_outcomes E w d)"
    using process_loop_collects [of E logo_img qr_img ?n ?c "file_names d" w2 "[]" ?ius] lp o by simp
  show "length (process_batch_outcomes E w d) = length (photo_urls d)"
    by (simp add: o length_process_outcomes)
  have pp: "process_photos E w (Some d)
      = (if res = [] then (Json_error ''Failed to process any photos'' 500, w3) else (Json_success res, w3))"
    using ne by (simp add: process_photos_def l q lp)
  show "fst (process_photos E w (Some d))
         = (if collected (process_batch_outcomes E w d) = []
            then Json_error ''Failed to process any photos'' 500
            else Json_success (collected (process_batch_outcomes E w d)))"
    using pp res by simp
  show "Http_get u \<in> set (trace (snd (process_photos E w (Some d))))" if "u \<in> set (photo_urls d)"
  proof -
    obtain evs where e: "trace w3 = trace w2 @ evs" "\<forall>iu \<in> set ?ius. Http_get (snd iu) \<in> set evs"
      using process_loop_attempts_all [OF lp] by blast
    have "u \<in> snd ` set ?ius" using that by (simp only: set_enumerate_snd)
    then have "Http_get u \<in> set evs" using e(2) by auto
    moreover have "snd (process_photos E w (Some d)) = w3" using pp by simp
    ultimately show ?thesis using e(1) by simp
  qed
qed

lemma upload_isolates_failures:
  assumes l: "logo_stage E w (form_logo req) = (Inr logo, w1)"
    and q: "qr_stage E w1 logo (form_qr_url req) = (Inr qr_code, w2)"
    and v: "valid_photos_of req \<noteq> []"
  defines "outs \<equiv> upload_outcomes E logo qr_code (py_strip (form_practice_name req))
                    (py_strip (form_plus_code req)) (upload_names_of req) w2
                    (enumerate 0 (valid_photos_of req))"
  shows "length outs = length (valid_photos_of req)"
    and "fst (upload E w req)
         = (if collected outs = [] then Upload_error ''Failed to process any photos'' 500
            else Upload_success (map snd (collected outs)))"
    and "photo \<in> set (valid_photos_of req) \<Longrightarrow>
           File_write (path_join (UPLOAD_FOLDER E) (secure_filename E (upload_name photo)))
             (upload_bytes photo) \<in> set (trace (snd (upload E w req)))"
proof -
  let ?n = "py_strip (form_practice_name req)" and ?c = "py_strip (form_plus_code req)"
  let ?ius = "enumerate 0 (valid_photos_of req)"
  obtain ps where ps: "form_photos req = Some ps"
    using v by (cases "form_photos req") (simp_all add: valid_photos_of_def)
  have named: "list_ex (\<lambda>f. upload_name f \<noteq> []) ps"
  proof -
    obtain p where "p \<in> set (valid_photos_of req)" using v by (cases "valid_photos_of req") auto
    then have "p \<in> set ps \<and> upload_name p \<noteq> []" using ps by (simp add: valid_photos_of_def)
    then show ?thesis by (auto simp add: list_ex_iff)
  qed
  obtain res w3 where lp: "upload_loop E logo qr_code ?n ?c (upload_names_of req) w2 [] ?ius = (res, w3)"
    by (cases "upload_loop E logo qr_code ?n ?c (upload_names_of req) w2 [] ?ius")
  have res: "res = collected outs"
    using upload_loop_collects [of E logo qr_code ?n ?c "upload_names_of req" w2 "[]" ?ius] lp
    by (simp add: outs_def)
  have vp: "filter (\<lambda>photo. upload_name photo \<noteq> [] \<and> allowed_file (upload_name photo)) ps
      = valid_photos_of req"
    by (simp add: valid_photos_of_def ps)
  have up: "upload E w req
      = (if res = [] then (Upload_error ''Failed to process any photos'' 500, cleanup w3 logo qr_code)
         else (Upload_success (map snd res), cleanup w3 logo qr_code))"
    using v named lp
    by (simp add: upload_def l q ps Let_def vp upload_names_of_def [symmetric])
  show "length outs = length (valid_photos_of req)"
    by (simp add: outs_def length_upload_outcomes)
  show "fst (upload E w req)
         = (if collected outs = [] then Upload_error ''Failed to process any photos'' 500
            else Upload_success (map snd (collected outs)))"
    using up res by simp
  show "File_write (path_join (UPLOAD_FOLDER E) (secure_filename E (upload_name photo)))
             (upload_bytes photo) \<in> set (trace (snd (upload E w req)))"
    if "photo \<in> set (valid_photos_of req)"
  proof -
    obtain evs where e: "trace w3 = trace w2 @ evs"
      "\<forall>ip \<in> set ?ius. File_write (path_join (UPLOAD_FOLDER E) (secure_filename E (upload_name (snd ip))))
                 (upload_bytes (snd ip)) \<in> set evs"
      using upload_loop_attempts_all [OF lp] by blast
    have "photo \<in> snd ` set ?ius" using that by (simp only: set_enumerate_snd)
    then have "File_write (path_join (UPLOAD_FOLDER E) (secure_filename E (upload_name photo)))
                 (upload_bytes photo) \<in> set evs" using e(2) by auto
    moreover obtain evc where "trace (cleanup w3 logo qr_code) = trace w3 @ evc"
      using cleanup_trace by blast
    moreover have "snd (upload E w req) = cleanup w3 logo qr_code" using up by simp
    ultimately show ?thesis using e(1) by simp
  qed
qed

lemma refs_below_alloc:
  "refs_below r s \<Longrightarrow> refs_below r (snd (alloc s im))"
  by (auto simp add: refs_below_def alloc_def split: option.splits)

lemma map_option_obj_alloc:
  "refs_below r s \<Longrightarrow> map_option (obj (snd (alloc s im))) r = map_option (obj s) r"
  by (auto simp add: refs_below_def alloc_def split: option.splits)

lemma process_photo_refines:
  assumes lg: "refs_below logo_img (images w)" and q: "refs_below qr_img (images w)"
    and p: "process_photo E w logo_img qr_img n c names i u = (r, w')"
  shows "(r, drop (length (trace w)) (trace w'))
           = photo_outcome E (map_option (obj (images w)) logo_img) (map_option (obj (images w)) qr_img)
               n c names i u"
    and "\<exists>evs. trace w' = trace w @ evs"
    and "x < top (images w) \<Longrightarrow> obj (images w') x = obj (images w) x"
    and "top (images w) \<le> top (images w')"
proof -
  obtain r1 w1 where d: "download_from_url E w u = (r1, w1)"
    by (cases "download_from_url E w u")
  have w1: "w1 = w\<lparr>trace := trace w @ [Http_get u]\<rparr>" using download_effects [OF d] .
  let ?L = "map_option (obj (images w)) logo_img" and ?Q = "map_option (obj (images w)) qr_img"
  have all: "(r, drop (length (trace w)) (trace w')) = photo_outcome E ?L ?Q n c names i u
      \<and> (\<exists>evs. trace w' = trace w @ evs)
      \<and> (\<forall>x < top (images w). obj (images w') x = obj (images w) x)
      \<and> top (images w) \<le> top (images w')"
  proof (cases "requests_get E u")
    case (Inl e)
    then show ?thesis using p d
      by (auto simp add: process_photo_def photo_outcome_def download_from_url_def Let_def)
  next
    case (Inr sc)
    obtain status_code content where sc: "sc = (status_code, content)" by (cases sc)
    show ?thesis
    proof (cases "status_code = 200")
      case False
      then show ?thesis using p d Inr sc
        by (auto simp add: process_photo_def photo_outcome_def download_from_url_def Let_def)
    next
      case True
      have r1: "r1 = Inr content" using d Inr sc True by (simp add: download_from_url_def Let_def)
      show ?thesis
      proof (cases "decode_photo E content")
        case (Inl e)
        then show ?thesis using p d r1 w1 Inr sc True
          by (auto simp add: process_photo_def photo_outcome_def)
      next
        case dec: (Inr photo)
        obtain img s1 where a: "alloc (images w1) photo = (img, s1)" by (cases "alloc (images w1) photo")
        have img: "img = top (images w)" "top s1 = Suc (top (images w))" "obj s1 img = photo"
            "\<forall>x < top (images w). obj s1 x = obj (images w) x"
          using a w1 by (auto simp add: alloc_def)
        have below: "img < top s1" "refs_below logo_img s1" "refs_below qr_img s1"
          using img lg q by (auto simp add: refs_below_def split: option.splits)
        have same: "map_option (obj s1) logo_img = ?L" "map_option (obj s1) qr_img = ?Q"
          using img(4) lg q by (auto simp add: refs_below_def split: option.splits)
        obtain rc s2 where co: "compose (lanczos E) (typeset E) s1 img logo_img qr_img n c = (rc, s2)"
          by (cases "compose (lanczos E) (typeset E) s1 img logo_img qr_img n c")
        note cr = compose_refines [OF below co]
        have fr: "\<forall>x < top (images w). obj s2 x = obj (images w) x"
          using cr(2) img by simp
        have tp: "top (images w) \<le> top s2" using cr(3) img(2) by simp
        show ?thesis
        proof (cases "composed_raster (lanczos E) (typeset E) photo ?L ?Q n c")
          case (Inl e)
          then have "rc = Inl e" using cr(1) img(3) same by simp
          then show ?thesis using p d r1 w1 Inr sc True dec a co Inl fr tp
            by (auto simp add: process_photo_def photo_outcome_def)
        next
          case cv: (Inr canvas)
          then have rc: "rc = Inr (Suc (top s1))" "obj s2 (Suc (top s1)) = canvas"
            using cr(1) img(3) same by simp_all
          show ?thesis
          proof (cases "save_jpeg E (convert_RGB canvas) 95")
            case (Inl e)
            then show ?thesis using p d r1 w1 Inr sc True dec a co cv rc fr tp
              by (auto simp add: process_photo_def photo_outcome_def Let_def)
          next
            case enc: (Inr encoded)
            obtain ru w3 where ub: "upload_to_blob E (w1\<lparr>images := s2\<rparr>) encoded (output_name_of E names i)
                ''image/jpeg'' = (ru, w3)"
              by (cases "upload_to_blob E (w1\<lparr>images := s2\<rparr>) encoded (output_name_of E names i) ''image/jpeg''")
            note ue = upload_to_blob_effects [OF ub]
            have pr: "(r, w') = (case ru of Inl e \<Rightarrow> (Inl e, w3)
                 | Inr processed_url \<Rightarrow> (Inr \<lparr>url = processed_url, filename = output_name_of E names i\<rparr>, w3))"
              using p d r1 Inr sc True dec a co cv rc enc ub
              by (simp add: process_photo_def Let_def split: sum.splits)
            have w3: "w' = w3" using pr by (cases ru) simp_all
            have tr: "drop (length (trace w)) (trace w3)
                = Http_get u # (if blob_token E = [] then []
                     else [Http_put (''https://blob.vercel-storage.com/'' @ output_name_of E names i) encoded])"
              using ue w1 by simp
            have ev: "\<exists>evs. trace w3 = trace w @ evs" using ue w1 by simp
            have out: "(r, drop (length (trace w)) (trace w')) = photo_outcome E ?L ?Q n c names i u"
              using pr ub tr w3 Inr sc True dec cv enc
              by (auto simp add: photo_outcome_def upload_to_blob_def Let_def split: sum.splits if_splits)
            show ?thesis using out ev w3 ue fr tp by simp
          qed
        qed
      qed
    qed
  qed
  show "(r, drop (length (trace w)) (trace w')) = photo_outcome E ?L ?Q n c names i u"
    using all by blast
  show "\<exists>evs. trace w' = trace w @ evs" using all by blast
  show "obj (images w') x = obj (images w) x" if "x < top (images w)" using all that by blast
  show "top (images w) \<le> top (images w')" using all by blast
qed

lemma process_loop_refines:
  assumes "refs_below logo_img (images w)" and "refs_below qr_img (images w)"
    and "map_option (obj (images w)) logo_img = L" and "map_option (obj (images w)) qr_img = Q"
    and "process_loop E logo_img qr_img n c names w acc ius = (res, w')"
  shows "res = acc @ batch_results E L Q n c names ius
       \<and> trace w' = trace w @ batch_events E L Q n c names ius
       \<and> (\<forall>x < top (images w). obj (images w') x = obj (images w) x)
       \<and> top (images w) \<le> top (images w')"
  using assms
proof (induction ius arbitrary: w acc)
  case Nil
  then show ?case by (simp add: batch_results_def batch_events_def)
next
  case (Cons iu ius)
  obtain i u where iu: "iu = (i, u)" by (cases iu)
  obtain r w1 where p: "process_photo E w logo_img qr_img n c names i u = (r, w1)"
    by (cases "process_photo E w logo_img qr_img n c names i u")
  note pr = process_photo_refines [OF Cons.prems(1,2) p]
  have out: "photo_outcome E L Q n c names i u = (r, drop (length (trace w)) (trace w1))"
    using pr(1) Cons.prems(3,4) by simp
  obtain evs where evs: "trace w1 = trace w @ evs" using pr(2) by blast
  then have dr: "drop (length (trace w)) (trace w1) = evs" by simp
  have b1: "refs_below logo_img (images w1)" "refs_below qr_img (images w1)"
    using Cons.prems(1,2) pr(4) by (auto simp add: refs_below_def split: option.splits)
  have m1: "map_option (obj (images w1)) logo_img = L" "map_option (obj (images w1)) qr_img = Q"
    using Cons.prems(1,2,3,4) pr(3) by (auto simp add: refs_below_def split: option.splits)
  define acc' where "acc' = (case r of Inl e \<Rightarrow> acc | Inr entry \<Rightarrow> acc @ [entry])"
  have lp: "process_loop E logo_img qr_img n c names w1 acc' ius = (res, w')"
    using Cons.prems(5) iu p by (cases r) (simp_all add: acc'_def)
  note ih = Cons.IH [OF b1 m1 lp]
  have r1: "acc' @ batch_results E L Q n c names ius = acc @ batch_results E L Q n c names (iu # ius)"
    using iu out by (cases r) (simp_all add: acc'_def batch_results_def)
  have r2: "trace w1 @ batch_events E L Q n c names ius = trace w @ batch_events E L Q n c names (iu # ius)"
    using iu out evs dr by (simp add: batch_events_def)
  have r3: "\<forall>x < top (images w). obj (images w') x = obj (images w) x"
    using ih pr(3,4) by auto
  have r4: "top (images w) \<le> top (images w')" using ih pr(4) by simp
  show ?case using ih r1 r2 r3 r4 by simp
qed

text \<open>
  Claim C9, as amended.  A batch of \<open>process_photos\<close> leaves the shared logo and QR rasters as
  they were: after the loop the store holds the same raster at both references.  Every photo
  is composed from those originals, so the entries and the requests of the batch are those
  of the value-level composition applied to the original overlays, photo by photo.  In that
  composition the logo is scaled from the original into the box of the photo at hand,
  (int(0.3 * W), 360) for a photo of width W, and the QR image into (360, 360), and each
  scaled copy has its alpha halved once.
\<close>

theorem shared_overlays_are_never_mutated:
  assumes "refs_below logo_img (images w)" and "refs_below qr_img (images w)"
    and "process_loop E logo_img qr_img name_line code_line names w acc photos = (res, w')"
  shows "map_option (obj (images w')) logo_img = map_option (obj (images w)) logo_img
       \<and> map_option (obj (images w')) qr_img = map_option (obj (images w)) qr_img
       \<and> res = acc @ batch_results E (map_option (obj (images w)) logo_img)
                        (map_option (obj (images w)) qr_img) name_line code_line names photos
       \<and> trace w' = trace w @ batch_events E (map_option (obj (images w)) logo_img)
                        (map_option (obj (images w)) qr_img) name_line code_line names photos
       \<and> composed_overlays L im (Some lg) (Some q)
           = overlay_value
               (overlay_value (base_canvas im) (thumbnail L lg (logo_box (width im)))
                  (\<lambda>t. (side_padding_of (width im), side_padding_of (width im))))
               (thumbnail L q qr_box)
               (\<lambda>t. (width im - width t - side_padding_of (width im), side_padding_of (width im)))
       \<and> overlay_value canvas (Inr t) pos = paste canvas (apply_half_opacity t) (pos t) (apply_half_opacity t)
       \<and> alpha_of (getpixel (apply_half_opacity t) x y) = half_opacity (alpha_of (getpixel t x y))"
proof -
  note r = process_loop_refines [OF assms(1,2) refl refl assms(3)]
  have f1: "map_option (obj (images w')) logo_img = map_option (obj (images w)) logo_img"
    using r assms(1) by (auto simp add: refs_below_def split: option.splits)
  have f2: "map_option (obj (images w')) qr_img = map_option (obj (images w)) qr_img"
    using r assms(2) by (auto simp add: refs_below_def split: option.splits)
  have v1: "composed_overlays L im (Some lg) (Some q)
           = overlay_value
               (overlay_value (base_canvas im) (thumbnail L lg (logo_box (width im)))
                  (\<lambda>t. (side_padding_of (width im), side_padding_of (width im))))
               (thumbnail L q qr_box)
               (\<lambda>t. (width im - width t - side_padding_of (width im), side_padding_of (width im)))"
    by (simp add: composed_overlays_def Let_def)
  have v2: "overlay_value canvas (Inr t) pos = paste canvas (apply_half_opacity t) (pos t) (apply_half_opacity t)"
    by (simp add: overlay_value_def)
  have v3: "alpha_of (getpixel (apply_half_opacity t) x y) = half_opacity (alpha_of (getpixel t x y))"
    by (cases "getpixel t x y")
      (simp add: apply_half_opacity_def putalpha_def point_def split_alpha_def alpha_of_def set_alpha_def)
  show ?thesis using r f1 f2 v1 v2 v3 by simp
qed

theorem shared_overlays_are_never_mutated_witness:
  "refs_below (Some 1) (images logo_world) \<and> refs_below None (images logo_world)
   \<and> obj (images (snd (process_loop demo_env (Some 1) None [] [] [] logo_world []
                         [(0, ''a''), (1, ''b'')]))) 1
      = new_image (800, 200) (0, 0, 0, 255)"
proof -
  have h: "refs_below (Some 1) (images logo_world)" "refs_below None (images logo_world)"
    by (simp_all add: refs_below_def logo_world_def demo_store_simps)
  have e: "process_loop demo_env (Some 1) None [] [] [] logo_world [] [(0, ''a''), (1, ''b'')]
      = (fst (process_loop demo_env (Some 1) None [] [] [] logo_world [] [(0, ''a''), (1, ''b'')]),
         snd (process_loop demo_env (Some 1) None [] [] [] logo_world [] [(0, ''a''), (1, ''b'')]))"
    by simp
  show ?thesis
    using h shared_overlays_are_never_mutated [OF h e]
    by (simp add: logo_world_def demo_store_simps)
qed

lemma demo_logo_thumbnail_wide:
  "thumbnail demo_resampler (new_image (800, 200) (0, 0, 0, 255)) (logo_box 2000)
     = Inr \<lparr>width = 600, height = 150, getpixel = (\<lambda>x y. (0, 0, 0, 255))\<rparr>"
  by (simp add: logo_box_eq new_image_def thumbnail_def thumbnail_size_def round_aspect_def Let_def
      demo_resampler_def)

text \<open>
  Claim C9 as stated fails for two photos of different widths: the copy of the same 800 by
  200 logo is 300 pixels wide on a photo 1000 wide and 600 pixels wide on a photo 2000 wide.
\<close>

theorem logo_size_follows_photo_width_counterexample:
  "width (obj (overlay_logo_copy demo_resampler two_photo_store 0 3 20 (Some 1)) 4) = 300
   \<and> width (obj (overlay_logo_copy demo_resampler two_photo_store 2 3 40 (Some 1)) 4) = 600"
proof -
  have s: "top two_photo_store = 4" "obj two_photo_store 0 = new_image (1000, 800) (10, 20, 30, 255)"
    "obj two_photo_store (Suc 0) = new_image (800, 200) (0, 0, 0, 255)"
    "obj two_photo_store 2 = new_image (2000, 800) (10, 20, 30, 255)"
    by (simp_all add: two_photo_store_def)
  show ?thesis
    by (simp add: overlay_logo_copy_def Image_copy_def alloc_def place_logo_def Image_thumbnail_def
        Image_putalpha_def Image_paste_def Let_def s new_image_simps demo_logo_thumbnail
        demo_logo_thumbnail_wide putalpha_def)
qed

lemma demo_world_simps:
  "files demo_world = []" "trace demo_world = []"
  "images demo_world = \<lparr>obj = (\<lambda>r. new_image (1, 1) white), top = 0\<rparr>"
  by (simp_all add: demo_world_def)

text \<open>
  Claim C10, as amended.  With an empty photo list both handlers answer with an error and
  produce no output.  \<open>process_photos\<close> answers 400 and leaves the world as it was: no download,
  no upload.  \<open>upload\<close> checks for photos after its logo and QR stages: it leaves every image
  object alone, its only events are writes and removals of \<open>temp_logo.png\<close> and
  \<open>generated_qr.png\<close> in the upload folder, every other file is unchanged, and a temporary
  file whose content changed is gone at the end.
\<close>

theorem empty_batch_is_rejected:
  assumes "photo_urls d = []" and "no_photo_named req" and "upload E wu req = (resp, wu')"
  shows "process_photos E w None = (Json_error ''No data provided'' 400, w)
       \<and> process_photos E w (Some d) = (Json_error ''No photos provided'' 400, w)
       \<and> (\<exists>msg code. resp = Upload_error msg code)
       \<and> images wu' = images wu
       \<and> (\<exists>evs. trace wu' = trace wu @ evs \<and> touches_only (temp_paths E) evs)
       \<and> (map_of (files wu') p = map_of (files wu) p
           \<or> (p \<in> set (temp_paths E) \<and> map_of (files wu') p = None))"
proof -
  note u = upload_no_photos [OF assms(2,3)]
  have t: "images wu' = images wu \<and> (\<exists>evs. trace wu' = trace wu @ evs \<and> touches_only (temp_paths E) evs)"
    using u(2) by (simp add: temp_only_def)
  have p1: "process_photos E w None = (Json_error ''No data provided'' 400, w)"
    by (simp add: process_photos_def)
  have p2: "process_photos E w (Some d) = (Json_error ''No photos provided'' 400, w)"
    using assms(1) by (simp add: process_photos_def)
  show ?thesis using p1 p2 u(1) t u(3) [of p] by blast
qed

theorem empty_batch_is_rejected_witness:
  "photo_urls empty_request = [] \<and> no_photo_named logo_only_request
   \<and> process_photos demo_env demo_world (Some empty_request)
       = (Json_error ''No photos provided'' 400, demo_world)
   \<and> upload demo_env demo_world logo_only_request
       = (Upload_error ''No photos uploaded'' 400,
          demo_world\<lparr>trace := [File_write ''uploads/temp_logo.png'' ''logo'',
                                File_remove ''uploads/temp_logo.png'']\<rparr>)
   \<and> map_of (files (snd (upload demo_env demo_world logo_only_request))) ''uploads/temp_logo.png'' = None"
proof -
  have h: "photo_urls empty_request = []" "no_photo_named logo_only_request"
    by (simp_all add: empty_request_def no_photo_named_def logo_only_request_def)
  have e: "upload demo_env demo_world logo_only_request
      = (fst (upload demo_env demo_world logo_only_request), snd (upload demo_env demo_world logo_only_request))"
    by simp
  show ?thesis
    using h empty_batch_is_rejected [OF h e, of demo_world "''uploads/temp_logo.png''"]
    by (simp add: demo_upload_logo_only demo_world_simps)
qed

text \<open>
  Claim C10 as stated fails for an upload with a logo and no photo: the logo is written to
  \<open>uploads/temp_logo.png\<close> before the photos are looked at, and removed again.
\<close>

theorem empty_upload_writes_temp_file_counterexample:
  "no_photo_named logo_only_request \<and> trace demo_world = []
   \<and> trace (snd (upload demo_env demo_world logo_only_request))
       = [File_write ''uploads/temp_logo.png'' ''logo'', File_remove ''uploads/temp_logo.png'']"
proof -
  have "no_photo_named logo_only_request"
    by (simp add: no_photo_named_def logo_only_request_def)
  then show ?thesis
    by (simp add: demo_upload_logo_only demo_world_simps)
qed

text \<open>
  Claim C5.  In both handlers every photo of the batch is attempted whatever happened to the
  photos before it (each photo URL is requested, each valid upload is saved), the handler
  returns one entry for each photo that succeeded, in order, and it answers with the error
  \<open>Failed to process any photos\<close> (500) only when no photo succeeded.
\<close>

theorem batch_isolates_photo_failures:
  assumes "photo_urls d \<noteq> []"
    and "logo_stage E wu (form_logo req) = (Inr logo, w1)"
    and "qr_stage E w1 logo (form_qr_url req) = (Inr qr_code, w2)"
    and "valid_photos_of req \<noteq> []"
    and "outs = upload_outcomes E logo qr_code (py_strip (form_practice_name req))
                  (py_strip (form_plus_code req)) (upload_names_of req) w2
                  (enumerate 0 (valid_photos_of req))"
  shows "length (process_batch_outcomes E w d) = length (photo_urls d)
       \<and> length (collected (process_batch_outcomes E w d))
           = length (filter succeeded (process_batch_outcomes E w d))
       \<and> fst (process_photos E w (Some d))
           = (if collected (process_batch_outcomes E w d) = []
              then Json_error ''Failed to process any photos'' 500
              else Json_success (collected (process_batch_outcomes E w d)))
       \<and> (\<forall>u \<in> set (photo_urls d). Http_get u \<in> set (trace (snd (process_photos E w (Some d)))))
       \<and> length outs = length (valid_photos_of req)
       \<and> length (collected outs) = length (filter succeeded outs)
       \<and> fst (upload E wu req)
           = (if collected outs = [] then Upload_error ''Failed to process any photos'' 500
              else Upload_success (map snd (collected outs)))
       \<and> (\<forall>photo \<in> set (valid_photos_of req).
             File_write (path_join (UPLOAD_FOLDER E) (secure_filename E (upload_name photo)))
               (upload_bytes photo) \<in> set (trace (snd (upload E wu req))))"
proof -
  note p = process_photos_isolates_failures [OF assms(1), where E = E and w = w]
  note u = upload_isolates_failures [OF assms(2,3,4), folded assms(5)]
  show ?thesis
    using p(1,2) p(3) u(1,2) u(3) length_collected [of outs]
      length_collected [of "process_batch_outcomes E w d"]
    by simp
qed

declare unique_output_name.simps [simp del]

lemma demo_env_simps:
  "vercel demo_env = False"
  "requests_get demo_env = (\<lambda>u. Inr (200, u))"
  "requests_put demo_env = (\<lambda>u content content_type. Inr (200, u))"
  "blob_token demo_env = ''token''"
  "decode_photo demo_env = (\<lambda>b. if b = ''corrupt'' then Inl (Exception ''cannot identify image file'')
                           else Inr (new_image (1000, 800) (10, 20, 30, 255)))"
  "decode_overlay demo_env = (\<lambda>b. Inr (new_image (800, 200) (0, 0, 0, 255)))"
  "qr_make_image demo_env = (\<lambda>u. Inr (new_image (410, 410) (0, 0, 0, 255)))"
  "lanczos demo_env = demo_resampler"
  "typeset demo_env = demo_typesetter"
  "save_jpeg demo_env = (\<lambda>im quality. Inr ''jpeg'')"
  "save_png demo_env = (\<lambda>im. Inr ''png'')"
  "secure_filename demo_env = (\<lambda>s. s)"
  by (simp_all add: demo_env_def)

lemma str_nat_digit: "n < 10 \<Longrightarrow> str_nat n = [''0123456789'' ! n]"
  by (subst str_nat.simps) simp

lemma demo_photo_outcome_ok:
  "u \<noteq> ''corrupt'' \<Longrightarrow>
   photo_outcome demo_env None None [] [] names i u
     = (Inr \<lparr>url = ''https://blob.vercel-storage.com/'' @ output_name_of demo_env names i,
             filename = output_name_of demo_env names i\<rparr>,
        [Http_get u, Http_put (''https://blob.vercel-storage.com/'' @ output_name_of demo_env names i) ''jpeg''])"
  by (simp add: photo_outcome_def demo_env_simps composed_raster_def branding_lines_of_def Let_def)

lemma demo_photo_outcome_corrupt:
  "photo_outcome demo_env None None [] [] names i ''corrupt''
     = (Inl (Exception ''cannot identify image file''), [Http_get ''corrupt''])"
  by (simp add: photo_outcome_def demo_env_simps)

lemma demo_names:
  "output_name_of demo_env [] 0 = ''photo_1.jpg''"
  "output_name_of demo_env [] (Suc (Suc 0)) = ''photo_3.jpg''"
  by (simp_all add: output_name_of_def str_nat_digit)

lemma demo_three_photos:
  "fst (process_photos demo_env demo_world (Some three_photo_request))
     = Json_success
         [\<lparr>url = ''https://blob.vercel-storage.com/photo_1.jpg'', filename = ''photo_1.jpg''\<rparr>,
          \<lparr>url = ''https://blob.vercel-storage.com/photo_3.jpg'', filename = ''photo_3.jpg''\<rparr>]"
proof -
  let ?ius = "enumerate 0 [''a'', ''corrupt'', ''b'']"
  obtain res w' where lp: "process_loop demo_env None None [] [] [] demo_world [] ?ius = (res, w')"
    by (cases "process_loop demo_env None None [] [] [] demo_world [] ?ius")
  have r: "res = batch_results demo_env None None [] [] [] ?ius"
    using process_loop_refines [OF _ _ refl refl lp] by (simp add: refs_below_def)
  have "batch_results demo_env None None [] [] [] ?ius =
         [\<lparr>url = ''https://blob.vercel-storage.com/photo_1.jpg'', filename = ''photo_1.jpg''\<rparr>,
          \<lparr>url = ''https://blob.vercel-storage.com/photo_3.jpg'', filename = ''photo_3.jpg''\<rparr>]"
    by (simp add: batch_results_def demo_photo_outcome_ok demo_photo_outcome_corrupt demo_names)
  then show ?thesis
    using lp r
    by (simp add: process_photos_def three_photo_request_def load_logo_def make_qr_def py_strip_def)
qed

lemma allowed_demo: "allowed_file ''a.jpg''" "allowed_file ''b.jpg''" "allowed_file ''c.png''"
  by (simp_all add: allowed_file_def py_lower_def lower_char_def lower_char_def)

lemma demo_valid:
  "valid_photos_of three_upload_request =
     [\<lparr>upload_name = ''a.jpg'', upload_bytes = ''good''\<rparr>,
      \<lparr>upload_name = ''b.jpg'', upload_bytes = ''corrupt''\<rparr>,
      \<lparr>upload_name = ''c.png'', upload_bytes = ''good''\<rparr>]"
  by (simp add: valid_photos_of_def three_upload_request_def allowed_demo)












lemma unique_output_name_fresh:
  "\<not> fs_exists fs (path_join folder (unique_output_name fs folder base ext counter output_name))"
proof (induction fs folder base ext counter output_name rule: unique_output_name.induct)
  case (1 fs folder base_name original_ext counter output_name)
  show ?case
  proof (cases "fs_exists fs (path_join folder output_name)")
    case True
    then show ?thesis using 1 by (subst unique_output_name.simps) simp
  next
    case False
    then show ?thesis by (subst unique_output_name.simps) simp
  qed
qed

lemma unique_output_name_form:
  "unique_output_name fs folder base ext counter output_name = output_name
   \<or> (\<exists>k. unique_output_name fs folder base ext counter output_name = base @ ''_'' @ str_nat k @ ext)"
proof (induction fs folder base ext counter output_name rule: unique_output_name.induct)
  case (1 fs folder base_name original_ext counter output_name)
  show ?case
  proof (cases "fs_exists fs (path_join folder output_name)")
    case True
    then have e: "unique_output_name fs folder base_name original_ext counter output_name
        = unique_output_name fs folder base_name original_ext (counter + 1)
            (base_name @ ''_'' @ str_nat counter @ original_ext)"
      by (subst unique_output_name.simps) simp
    show ?thesis using 1 [OF True] unfolding e by blast
  next
    case False
    then show ?thesis by (subst unique_output_name.simps) simp
  qed
qed

lemma digit_not_slash: "n < 10 \<Longrightarrow> ''0123456789'' ! n \<noteq> CHR ''/''"
proof -
  assume "n < 10"
  then have "n \<in> {0, 1, 2, 3, 4, 5, 6, 7, 8, 9}" by auto
  then show ?thesis by auto
qed

lemma str_nat_no_slash: "CHR ''/'' \<notin> set (str_nat n)"
proof (induction n rule: str_nat.induct)
  case (1 n)
  show ?case
  proof (cases "n < 10")
    case True
    then show ?thesis using digit_not_slash [of n] by (subst str_nat.simps) simp
  next
    case False
    have "n mod 10 < 10" by simp
    then have "''0123456789'' ! (n mod 10) \<noteq> CHR ''/''" by (rule digit_not_slash)
    then show ?thesis using False 1 by (subst str_nat.simps) simp
  qed
qed

lemma original_ext_no_slash: "CHR ''/'' \<notin> set (original_ext_of f)"
  by (auto simp add: original_ext_of_def Let_def)

lemma path_join_plain:
  "CHR ''/'' \<notin> set b \<Longrightarrow> a \<noteq> [] \<Longrightarrow> last a = CHR ''/'' \<Longrightarrow> path_join a b = a @ b"
  by (cases b) (auto simp add: path_join_def)

lemma folders:
  "UPLOAD_FOLDER E \<noteq> []" "last (UPLOAD_FOLDER E) = CHR ''/''"
  "PROCESSED_FOLDER E \<noteq> []" "last (PROCESSED_FOLDER E) = CHR ''/''"
  "UPLOAD_FOLDER E @ a \<noteq> PROCESSED_FOLDER E @ b"
  by (simp_all add: UPLOAD_FOLDER_def PROCESSED_FOLDER_def)

lemma takeWhile_upto_sep:
  "c \<notin> set xs \<Longrightarrow> takeWhile (\<lambda>d. d \<noteq> c) (xs @ c # ys) = xs"
  by (induction xs) auto

lemma basename_in_folder:
  "CHR ''/'' \<notin> set n \<Longrightarrow> basename (PROCESSED_FOLDER E @ n) = n"
proof -
  assume n: "CHR ''/'' \<notin> set n"
  obtain p where p: "rev (PROCESSED_FOLDER E) = CHR ''/'' # p"
    by (cases "vercel E") (simp_all add: PROCESSED_FOLDER_def)
  have "takeWhile (\<lambda>c. c \<noteq> CHR ''/'') (rev n @ CHR ''/'' # p) = rev n"
    using n by (simp add: takeWhile_upto_sep)
  then show ?thesis by (simp add: basename_def p)
qed

lemma fs_exists_write: "fs_exists (fs_write fs p c) q \<longleftrightarrow> q = p \<or> fs_exists fs q"
  by (auto simp add: fs_exists_map_of map_of_fs_write)

lemma fs_exists_remove: "fs_exists (fs_remove fs p) q \<longleftrightarrow> q \<noteq> p \<and> fs_exists fs q"
  by (auto simp add: fs_exists_map_of map_of_fs_remove)

lemma upload_photo_names:
  assumes safe: "safe_names E"
    and up: "upload_photo E w logo qr_code n c names i photo = (r, w')"
  shows "fs_exists (files w) (PROCESSED_FOLDER E @ m) \<Longrightarrow> fs_exists (files w') (PROCESSED_FOLDER E @ m)"
    and "r = Inr (output_path, out_name) \<Longrightarrow>
           \<not> fs_exists (files w) output_path \<and> fs_exists (files w') output_path
           \<and> output_path = PROCESSED_FOLDER E @ out_name"
proof -
  let ?f = "secure_filename E (upload_name photo)"
  let ?fp = "path_join (UPLOAD_FOLDER E) ?f"
  let ?w1 = "file_save w ?fp (upload_bytes photo)"
  have fp: "?fp = UPLOAD_FOLDER E @ ?f"
    using safe by (simp add: safe_names_def path_join_plain folders)
  have f1: "fs_exists (files ?w1) q \<longleftrightarrow> q = ?fp \<or> fs_exists (files w) q" for q
    by (simp add: file_save_def fs_exists_write)
  define base where "base = upload_base_name E names i"
  define ext where "ext = original_ext_of (upload_name photo)"
  define output_name where "output_name = unique_output_name (files ?w1) (PROCESSED_FOLDER E) base ext 1 (base @ ext)"
  have bs: "CHR ''/'' \<notin> set base" using safe by (simp add: base_def upload_base_name_def safe_names_def)
  have es: "CHR ''/'' \<notin> set ext" by (simp add: ext_def original_ext_no_slash)
  have ns: "CHR ''/'' \<notin> set output_name"
    using unique_output_name_form [of "files ?w1" "PROCESSED_FOLDER E" base ext 1 "base @ ext"]
      bs es str_nat_no_slash
    by (auto simp add: output_name_def)
  have op: "path_join (PROCESSED_FOLDER E) output_name = PROCESSED_FOLDER E @ output_name"
    using ns by (simp add: path_join_plain folders)
  have fresh: "\<not> fs_exists (files ?w1) (PROCESSED_FOLDER E @ output_name)"
  proof -
    have "\<not> fs_exists (files ?w1) (path_join (PROCESSED_FOLDER E) output_name)"
      unfolding output_name_def by (rule unique_output_name_fresh)
    then show ?thesis using op by simp
  qed
  have iw: "images ?w1 = images w" by (simp add: file_save_def)
  have cases: "files w' = files ?w1 \<and> (\<forall>x. r \<noteq> Inr x)
      \<or> (\<exists>encoded. r = Inr (PROCESSED_FOLDER E @ output_name, basename (PROCESSED_FOLDER E @ output_name))
            \<and> files w' = fs_remove (fs_write (files ?w1) (PROCESSED_FOLDER E @ output_name) encoded) ?fp)"
  proof (cases "decode_photo E (upload_bytes photo)")
    case (Inl e)
    then show ?thesis using up by (auto simp add: upload_photo_def Let_def)
  next
    case (Inr raster)
    obtain img s1 where a: "alloc (images w) raster = (img, s1)" by (cases "alloc (images w) raster")
    obtain rc s2 where c: "compose_upload E (files ?w1) s1 img logo qr_code n c = (rc, s2)"
      by (cases "compose_upload E (files ?w1) s1 img logo qr_code n c")
    show ?thesis
    proof (cases rc)
      case (Inl e)
      then show ?thesis using up Inr a c iw by (auto simp add: upload_photo_def Let_def)
    next
      case rc: (Inr clean_img)
      show ?thesis
      proof (cases "encode_output E output_name (obj s2 clean_img)")
        case (Inl e)
        then show ?thesis using up Inr a c iw rc
          by (auto simp add: upload_photo_def Let_def output_name_def base_def ext_def)
      next
        case en: (Inr encoded)
        have "r = Inr (path_join (PROCESSED_FOLDER E) output_name,
                       basename (path_join (PROCESSED_FOLDER E) output_name))
            \<and> w' = os_remove (file_save (?w1\<lparr>images := s2\<rparr>)
                        (path_join (PROCESSED_FOLDER E) output_name) encoded) ?fp"
          using up Inr a c iw rc en
          by (auto simp add: upload_photo_def Let_def output_name_def base_def ext_def)
        then have "r = Inr (PROCESSED_FOLDER E @ output_name, basename (PROCESSED_FOLDER E @ output_name))
            \<and> files w' = fs_remove (fs_write (files ?w1) (PROCESSED_FOLDER E @ output_name) encoded) ?fp"
          by (simp add: op os_remove_def file_save_def)
        then show ?thesis by blast
      qed
    qed
  qed
  then have fail: "(\<exists>x. r = Inr x) \<longrightarrow>
      (\<exists>encoded. r = Inr (PROCESSED_FOLDER E @ output_name, basename (PROCESSED_FOLDER E @ output_name))
            \<and> files w' = fs_remove (fs_write (files ?w1) (PROCESSED_FOLDER E @ output_name) encoded) ?fp)"
    by blast
  show "fs_exists (files w') (PROCESSED_FOLDER E @ m)" if "fs_exists (files w) (PROCESSED_FOLDER E @ m)"
    using cases that f1 fp folders(5) [of E ?f m]
    by (auto simp add: fs_exists_remove fs_exists_write)
  show "\<not> fs_exists (files w) output_path \<and> fs_exists (files w') output_path
           \<and> output_path = PROCESSED_FOLDER E @ out_name"
    if rr: "r = Inr (output_path, out_name)"
  proof -
    obtain encoded where e: "r = Inr (PROCESSED_FOLDER E @ output_name, basename (PROCESSED_FOLDER E @ output_name))"
      "files w' = fs_remove (fs_write (files ?w1) (PROCESSED_FOLDER E @ output_name) encoded) ?fp"
      using cases rr by blast
    have o: "output_path = PROCESSED_FOLDER E @ output_name" "out_name = output_name"
      using e(1) rr ns by (simp_all add: basename_in_folder)
    have "fs_exists (files w') output_path"
      using e(2) o fp folders(5) [of E ?f output_name] by (auto simp add: fs_exists_remove fs_exists_write)
    moreover have "\<not> fs_exists (files w) output_path" using fresh f1 o by simp
    ultimately show ?thesis using o by simp
  qed
qed

lemma upload_loop_names:
  assumes safe: "safe_names E"
    and lp: "upload_loop E l q n c names w acc ius = (res, w')"
    and inv: "\<forall>e \<in> set acc. fs_exists (files w) (fst e) \<and> fst e = PROCESSED_FOLDER E @ snd e"
    and dis: "distinct (map fst acc)"
  shows "distinct (map fst res) \<and> (\<forall>e \<in> set res. fst e = PROCESSED_FOLDER E @ snd e)"
  using lp inv dis
proof (induction ius arbitrary: w acc)
  case Nil
  then show ?case by auto
next
  case (Cons ip ius)
  obtain i p where ip: "ip = (i, p)" by (cases ip)
  obtain r w1 where u: "upload_photo E w l q n c names i p = (r, w1)"
    by (cases "upload_photo E w l q n c names i p")
  note nm = upload_photo_names [OF safe u]
  have keep: "\<forall>e \<in> set acc. fs_exists (files w1) (fst e) \<and> fst e = PROCESSED_FOLDER E @ snd e"
    using Cons.prems(2) nm(1) by metis
  show ?case
  proof (cases r)
    case (Inl e)
    then have "upload_loop E l q n c names w1 acc ius = (res, w')"
      using Cons.prems(1) ip u by simp
    then show ?thesis using Cons.IH keep Cons.prems(3) by blast
  next
    case (Inr entry)
    obtain output_path out_name where en: "entry = (output_path, out_name)" by (cases entry)
    have "r = Inr (output_path, out_name)" using Inr en by simp
    note ff = nm(2) [OF this]
    have f: "\<not> fs_exists (files w) output_path" "fs_exists (files w1) output_path"
        "output_path = PROCESSED_FOLDER E @ out_name"
      using ff by blast+
    have lp': "upload_loop E l q n c names w1 (acc @ [entry]) ius = (res, w')"
      using Cons.prems(1) ip u Inr by simp
    have i1: "\<forall>e \<in> set (acc @ [entry]). fs_exists (files w1) (fst e) \<and> fst e = PROCESSED_FOLDER E @ snd e"
      using keep f en by auto
    have "output_path \<notin> fst ` set acc" using Cons.prems(2) f(1) by auto
    then have i2: "distinct (map fst (acc @ [entry]))" using Cons.prems(3) en by simp
    show ?thesis using Cons.IH [OF lp' i1 i2] .
  qed
qed

lemma logo_stage_error:
  "logo_stage E w l = (Inl r, w') \<Longrightarrow> \<exists>m c. r = Upload_error m c"
  by (auto simp add: logo_stage_def Let_def split: option.splits if_splits)

lemma qr_stage_error:
  "qr_stage E w l q = (Inl r, w') \<Longrightarrow> \<exists>m c. r = Upload_error m c"
  by (auto simp add: qr_stage_def Let_def split: option.splits if_splits sum.splits)

text \<open>
  The sibling handler \<open>upload\<close> keeps its output names apart: the naming loop returns a name
  that is not taken in the processed folder, so the names of a successful answer are pairwise
  distinct, and a name that is taken gets the suffix \<open>_1\<close> when that one is free.
\<close>

lemma upload_names_are_distinct:
  assumes "safe_names E" and "upload E w req = (Upload_success names, w')"
  shows "distinct names"
proof -
  obtain logo w1 where l: "logo_stage E w (form_logo req) = (Inr logo, w1)"
  proof (cases "logo_stage E w (form_logo req)")
    case (Pair a b)
    show ?thesis
    proof (cases a)
      case (Inl r)
      then have "upload E w req = (r, b)" using Pair by (simp add: upload_def)
      then show ?thesis using logo_stage_error [of E w "form_logo req" r b] Pair Inl assms(2) by auto
    next
      case (Inr x)
      then show ?thesis using Pair that by simp
    qed
  qed
  obtain qr_code w2 where q: "qr_stage E w1 logo (form_qr_url req) = (Inr qr_code, w2)"
  proof (cases "qr_stage E w1 logo (form_qr_url req)")
    case (Pair a b)
    show ?thesis
    proof (cases a)
      case (Inl r)
      then have "upload E w req = (r, b)" using Pair l by (simp add: upload_def)
      then show ?thesis using qr_stage_error [of E w1 logo "form_qr_url req" r b] Pair Inl assms(2) by auto
    next
      case (Inr x)
      then show ?thesis using Pair that by simp
    qed
  qed
  obtain ius nms res w3 where
    lp: "upload_loop E logo qr_code (py_strip (form_practice_name req)) (py_strip (form_plus_code req))
            nms w2 [] ius = (res, w3)" and nm: "names = map snd res"
    using assms(2) l q
    by (auto simp add: upload_def Let_def split: if_splits prod.splits)
  have r: "distinct (map fst res) \<and> (\<forall>e \<in> set res. fst e = PROCESSED_FOLDER E @ snd e)"
    using upload_loop_names [OF assms(1) lp] by simp
  have "inj_on snd (set res)"
  proof (rule inj_onI)
    fix a b assume "a \<in> set res" "b \<in> set res" "snd a = snd b"
    then have "fst a = fst b" using r by simp
    then show "a = b" using \<open>snd a = snd b\<close> by (simp add: prod_eq_iff)
  qed
  moreover have "distinct res" using r by (simp add: distinct_map)
  ultimately show ?thesis unfolding nm by (simp add: distinct_map)
qed

lemma unique_output_name_first_suffix:
  assumes "fs_exists fs (path_join folder (base @ ext))"
    and "\<not> fs_exists fs (path_join folder (base @ ''_1'' @ ext))"
  shows "unique_output_name fs folder base ext 1 (base @ ext) = base @ ''_1'' @ ext"
proof -
  have s1: "str_nat (Suc 0) = ''1''" by (subst str_nat.simps) simp
  have "unique_output_name fs folder base ext 1 (base @ ext)
      = unique_output_name fs folder base ext (1 + 1) (base @ ''_'' @ str_nat 1 @ ext)"
    using assms(1) by (subst unique_output_name.simps) simp
  also have "\<dots> = base @ ''_'' @ str_nat 1 @ ext"
    using assms(2) by (subst unique_output_name.simps) (simp add: s1)
  finally show ?thesis by (simp add: s1)
qed

lemma demo_names_x:
  "output_name_of demo_env [''x.jpg'', ''x.jpg''] 0 = ''x.jpg''"
  "output_name_of demo_env [''x.jpg'', ''x.jpg''] (Suc 0) = ''x.jpg''"
  by (simp_all add: output_name_of_def demo_env_simps splitext_def rfind_def Let_def)

text \<open>
  Claim C2 fails in \<open>process_photos\<close>.  Two photos that are both named \<open>x.jpg\<close> are both put
  under \<open>https://blob.vercel-storage.com/x.jpg\<close> and both returned with the file name
  \<open>x.jpg\<close>: the handler derives the name with no look at the names it has already used.
\<close>

theorem process_photos_reuses_output_name:
  "fst (process_photos demo_env demo_world (Some same_name_request))
     = Json_success
         [\<lparr>url = ''https://blob.vercel-storage.com/x.jpg'', filename = ''x.jpg''\<rparr>,
          \<lparr>url = ''https://blob.vercel-storage.com/x.jpg'', filename = ''x.jpg''\<rparr>]
   \<and> trace (snd (process_photos demo_env demo_world (Some same_name_request)))
       = [Http_get ''a'', Http_put ''https://blob.vercel-storage.com/x.jpg'' ''jpeg'',
          Http_get ''b'', Http_put ''https://blob.vercel-storage.com/x.jpg'' ''jpeg'']"
proof -
  let ?ius = "enumerate 0 [''a'', ''b'']"
  let ?fn = "[''x.jpg'', ''x.jpg'']"
  obtain res w' where lp: "process_loop demo_env None None [] [] ?fn demo_world [] ?ius = (res, w')"
    by (cases "process_loop demo_env None None [] [] ?fn demo_world [] ?ius")
  have r: "res = batch_results demo_env None None [] [] ?fn ?ius"
      "trace w' = trace demo_world @ batch_events demo_env None None [] [] ?fn ?ius"
    using process_loop_refines [OF _ _ refl refl lp] by (simp_all add: refs_below_def)
  have b: "batch_results demo_env None None [] [] ?fn ?ius =
         [\<lparr>url = ''https://blob.vercel-storage.com/x.jpg'', filename = ''x.jpg''\<rparr>,
          \<lparr>url = ''https://blob.vercel-storage.com/x.jpg'', filename = ''x.jpg''\<rparr>]"
    by (simp add: batch_results_def demo_photo_outcome_ok demo_names_x)
  have e: "batch_events demo_env None None [] [] ?fn ?ius =
       [Http_get ''a'', Http_put ''https://blob.vercel-storage.com/x.jpg'' ''jpeg'',
        Http_get ''b'', Http_put ''https://blob.vercel-storage.com/x.jpg'' ''jpeg'']"
    by (simp add: batch_events_def demo_photo_outcome_ok demo_names_x)
  have pp: "process_photos demo_env demo_world (Some same_name_request) = (Json_success res, w')"
    using lp r(1) b
    by (simp add: process_photos_def same_name_request_def load_logo_def make_qr_def py_strip_def)
  show ?thesis using pp r b e by (simp add: demo_world_simps)
qed

theorem batch_isolates_photo_failures_witness:
  "photo_urls three_photo_request \<noteq> []
   \<and> logo_stage demo_env demo_world (form_logo three_upload_request) = (Inr None, demo_world)
   \<and> qr_stage demo_env demo_world None (form_qr_url three_upload_request) = (Inr None, demo_world)
   \<and> valid_photos_of three_upload_request \<noteq> []
   \<and> length (process_batch_outcomes demo_env demo_world three_photo_request) = 3
   \<and> fst (process_photos demo_env demo_world (Some three_photo_request))
       = Json_success
           [\<lparr>url = ''https://blob.vercel-storage.com/photo_1.jpg'', filename = ''photo_1.jpg''\<rparr>,
            \<lparr>url = ''https://blob.vercel-storage.com/photo_3.jpg'', filename = ''photo_3.jpg''\<rparr>]
   \<and> Http_get ''b'' \<in> set (trace (snd (process_photos demo_env demo_world (Some three_photo_request))))
   \<and> File_write ''uploads/c.png'' ''good''
       \<in> set (trace (snd (upload demo_env demo_world three_upload_request)))"
proof -
  have h1: "photo_urls three_photo_request \<noteq> []" by (simp add: three_photo_request_def)
  have h2: "logo_stage demo_env demo_world (form_logo three_upload_request) = (Inr None, demo_world)"
    by (simp add: logo_stage_def three_upload_request_def)
  have h3: "qr_stage demo_env demo_world None (form_qr_url three_upload_request) = (Inr None, demo_world)"
    by (simp add: qr_stage_def three_upload_request_def py_strip_def)
  have h4: "valid_photos_of three_upload_request \<noteq> []" by (simp add: demo_valid)
  note t = batch_isolates_photo_failures [OF h1 h2 h3 h4 refl, of demo_world]
  have u: "photo_urls three_photo_request = [''a'', ''corrupt'', ''b'']"
    by (simp add: three_photo_request_def)
  have p: "path_join (UPLOAD_FOLDER demo_env) (secure_filename demo_env ''c.png'') = ''uploads/c.png''"
    by (simp add: path_join_def UPLOAD_FOLDER_def demo_env_simps)
  have a: "length (process_batch_outcomes demo_env demo_world three_photo_request) = 3"
    using t u by simp
  have b: "Http_get ''b'' \<in> set (trace (snd (process_photos demo_env demo_world (Some three_photo_request))))"
    using t u by simp
  have "\<forall>photo \<in> set (valid_photos_of three_upload_request).
          File_write (path_join (UPLOAD_FOLDER demo_env) (secure_filename demo_env (upload_name photo)))
            (upload_bytes photo) \<in> set (trace (snd (upload demo_env demo_world three_upload_request)))"
    using t by blast
  then have c: "File_write ''uploads/c.png'' ''good''
       \<in> set (trace (snd (upload demo_env demo_world three_upload_request)))"
    using p by (simp add: demo_valid)
  show ?thesis using h1 h2 h3 h4 a b c demo_three_photos by simp
qed
















theorem maps_url_query_stripped_witness:
  "is_google_maps ''https://maps.google.com/maps?cid=123&extra=1''
   \<and> CHR ''?'' \<in> set ''https://maps.google.com/maps?cid=123&extra=1''
   \<and> clean_qr_url ''https://maps.google.com/maps?cid=123&extra=1'' = ''https://maps.google.com/maps''
   \<and> qr_make_image maps_only_env ''https://maps.google.com/maps'' = Inr (new_image (410, 410) (0, 0, 0, 255))
   \<and> qr_make_image maps_only_env ''https://maps.google.com/maps?cid=123&extra=1''
        = Inl (Exception ''unexpected payload'')
   \<and> fst (make_qr maps_only_env demo_world (Some ''https://maps.google.com/maps?cid=123&extra=1'')) = Some 0
   \<and> obj (images (snd (make_qr maps_only_env demo_world
                           (Some ''https://maps.google.com/maps?cid=123&extra=1'')))) 0
        = new_image (410, 410) (0, 0, 0, 255)
   \<and> qr_stage maps_only_env demo_world None '' https://maps.google.com/maps?cid=123&extra=1 ''
        = (Inr (Some ''uploads/generated_qr.png''),
           file_save demo_world ''uploads/generated_qr.png'' ''png'')
   \<and> is_google_maps ''https://maps.app.goo.gl/abc?g_st=ic''
   \<and> CHR ''?'' \<notin> set (clean_qr_url ''https://maps.app.goo.gl/abc?g_st=ic'')
   \<and> make_qr maps_only_env demo_world (Some ''https://maps.app.goo.gl/abc?g_st=ic'') = (None, demo_world)
   \<and> \<not> is_google_maps ''https://example.com/p?x=1''
   \<and> clean_qr_url ''https://example.com/p?x=1'' = ''https://example.com/p?x=1''
   \<and> fst (make_qr demo_env demo_world (Some ''https://example.com/p?x=1'')) = Some 0
   \<and> qr_stage demo_env demo_world None ''https://example.com/p?x=1''
        = (Inr (Some ''uploads/generated_qr.png''),
           file_save demo_world ''uploads/generated_qr.png'' ''png'')"
proof -
  let ?u = "''https://maps.google.com/maps?cid=123&extra=1''"
  let ?g = "''https://maps.app.goo.gl/abc?g_st=ic''"
  let ?e = "''https://example.com/p?x=1''"
  have a: "is_google_maps ?u" "is_google_maps ?g" "\<not> is_google_maps ?e"
    by (simp_all add: is_google_maps_def)
  have q: "CHR ''?'' \<in> set ?u" "CHR ''?'' \<in> set ?g" by simp_all
  have tw: "takeWhile (\<lambda>c. c \<noteq> CHR ''?'') ?u = ''https://maps.google.com/maps''"
    "takeWhile (\<lambda>c. c \<noteq> CHR ''?'') ?g = ''https://maps.app.goo.gl/abc''"
    by simp_all
  have m: "qr_make_image maps_only_env ''https://maps.google.com/maps'' = Inr (new_image (410, 410) (0, 0, 0, 255))"
    "qr_make_image maps_only_env ?u = Inl (Exception ''unexpected payload'')"
    "qr_make_image maps_only_env ''https://maps.app.goo.gl/abc'' = Inl (Exception ''unexpected payload'')"
    "save_png maps_only_env (new_image (410, 410) (0, 0, 0, 255)) = Inr ''png''"
    by (simp_all add: maps_only_env_def demo_env_def)
  have d: "qr_make_image demo_env ?e = Inr (new_image (410, 410) (0, 0, 0, 255))"
    "save_png demo_env (new_image (410, 410) (0, 0, 0, 255)) = Inr ''png''"
    by (simp_all add: demo_env_simps)
  have s: "py_strip '' https://maps.google.com/maps?cid=123&extra=1 '' = ?u" "py_strip ?e = ?e"
    by (simp_all add: py_strip_def isspace_def)
  have f: "path_join (UPLOAD_FOLDER maps_only_env) ''generated_qr.png'' = ''uploads/generated_qr.png''"
    "path_join (UPLOAD_FOLDER demo_env) ''generated_qr.png'' = ''uploads/generated_qr.png''"
    by (simp_all add: path_join_def UPLOAD_FOLDER_def maps_only_env_def demo_env_def)
  note t1 = maps_url_query_stripped [where u = ?u and E = maps_only_env and w = demo_world
      and raster = "new_image (410, 410) (0, 0, 0, 255)" and wu = demo_world and logo = None
      and form = "'' https://maps.google.com/maps?cid=123&extra=1 ''" and encoded = "''png''"]
  note t2 = maps_url_query_stripped [where u = ?g and E = maps_only_env and w = demo_world
      and e = "Exception ''unexpected payload''"]
  note t3 = maps_url_query_stripped [where u = ?e and E = demo_env and w = demo_world
      and raster = "new_image (410, 410) (0, 0, 0, 255)" and wu = demo_world and logo = None
      and form = ?e and encoded = "''png''"]
  have r1: "clean_qr_url ?u = ''https://maps.google.com/maps''
      \<and> fst (make_qr maps_only_env demo_world (Some ?u)) = Some 0
      \<and> obj (images (snd (make_qr maps_only_env demo_world (Some ?u)))) 0 = new_image (410, 410) (0, 0, 0, 255)
      \<and> qr_stage maps_only_env demo_world None '' https://maps.google.com/maps?cid=123&extra=1 ''
        = (Inr (Some ''uploads/generated_qr.png''),
           file_save demo_world ''uploads/generated_qr.png'' ''png'')"
    using t1 a(1) q(1) tw(1) m(1,4) s(1) f(1) by (simp add: demo_world_simps)
  have r2: "CHR ''?'' \<notin> set (clean_qr_url ?g)
      \<and> make_qr maps_only_env demo_world (Some ?g) = (None, demo_world)"
    using t2 a(2) q(2) tw(2) m(3) by simp
  have r3: "clean_qr_url ?e = ?e \<and> fst (make_qr demo_env demo_world (Some ?e)) = Some 0
      \<and> qr_stage demo_env demo_world None ?e
        = (Inr (Some ''uploads/generated_qr.png''),
           file_save demo_world ''uploads/generated_qr.png'' ''png'')"
    using t3 a(3) d s(2) f(2) by (simp add: demo_world_simps)
  show ?thesis using a q m(1,2) r1 r2 r3 by simp
qed

text \<open>
  Rasters on which the two candidate widths tie, in the logo box of a photo 1000 wide:
  the width that results is the ceiling or the floor, as the tie is resolved.
\<close>

lemma thumbnail_size_on_ties:
  "thumbnail_size True (5, 400) (300, 360) = Inr (Some (5, 360))"
  "thumbnail_size False (5, 400) (300, 360) = Inr (Some (4, 360))"
  "thumbnail_size True (14, 480) (300, 360) = Inr (Some (11, 360))"
  "thumbnail_size True (23, 368) (300, 360) = Inr (Some (23, 360))"
proof -
  have f: "\<lfloor>9 / 2 :: rat\<rfloor> = 4" "\<lceil>9 / 2 :: rat\<rceil> = 5"
    "\<lfloor>21 / 2 :: rat\<rfloor> = 10" "\<lceil>21 / 2 :: rat\<rceil> = 11"
    "\<lfloor>45 / 2 :: rat\<rfloor> = 22" "\<lceil>45 / 2 :: rat\<rceil> = 23"
    by (simp_all add: floor_unique ceiling_unique)
  show "thumbnail_size True (5, 400) (300, 360) = Inr (Some (5, 360))"
    "thumbnail_size False (5, 400) (300, 360) = Inr (Some (4, 360))"
    "thumbnail_size True (14, 480) (300, 360) = Inr (Some (11, 360))"
    "thumbnail_size True (23, 368) (300, 360) = Inr (Some (23, 360))"
    by (simp_all add: thumbnail_size_def round_aspect_def Let_def f)
qed

end
